theory Spec2Isabelle
  imports Main "HOL-Library.Multiset"
begin

section \<open>Strings\<close>

text \<open>
  JavaScript strings are modelled as \<^typ>\<open>string\<close> (lists of 8-bit characters), so
  \<open>s.length\<close> is \<^const>\<open>length\<close> and a template literal is list concatenation.
  Case conversion is the ASCII one: only \<open>A\<close> .. \<open>Z\<close> change.  A value that may
  be \<open>null\<close> or \<open>undefined\<close> is an \<^typ>\<open>'a option\<close>.
\<close>

definition lower_char :: "char \<Rightarrow> char" where
  "lower_char c =
     (let n = (of_char c :: nat) in if 65 \<le> n \<and> n \<le> 90 then char_of (n + 32) else c)"

definition toLowerCase :: "string \<Rightarrow> string" where
  "toLowerCase s = map lower_char s"

fun starts_with :: "string \<Rightarrow> string \<Rightarrow> bool" where
  "starts_with s [] = True"
| "starts_with [] (p # ps) = False"
| "starts_with (c # cs) (p # ps) = (c = p \<and> starts_with cs ps)"

text \<open>\<open>s.includes(p)\<close>: \<open>p\<close> occurs in \<open>s\<close> as a contiguous substring.\<close>

fun includes_str :: "string \<Rightarrow> string \<Rightarrow> bool" where
  "includes_str [] p = (p = [])"
| "includes_str (c # cs) p = (starts_with (c # cs) p \<or> includes_str cs p)"

text \<open>\<open>s.replace(/a/g, b)\<close> for a one-character pattern \<open>a\<close>.\<close>

definition replace_char :: "char \<Rightarrow> char \<Rightarrow> string \<Rightarrow> string" where
  "replace_char a b s = map (\<lambda>c. if c = a then b else c) s"

text \<open>\<open>v || d\<close> for a string \<open>v\<close> that may be null: null and the empty string are falsy.\<close>

definition js_or :: "string option \<Rightarrow> string \<Rightarrow> string" where
  "js_or v d = (case v of None \<Rightarrow> d | Some s \<Rightarrow> if s = [] then d else s)"

definition truthy :: "string option \<Rightarrow> bool" where
  "truthy v = (case v of None \<Rightarrow> False | Some s \<Rightarrow> s \<noteq> [])"

section \<open>Repository records\<close>

record parent_ref =
  p_name :: string
  p_url :: string
  p_stars :: nat

text \<open>
  A repository as the hosting API lists it.  Timestamps are milliseconds since the epoch
  (the value of \<open>new Date(r.updated_at)\<close>); \<open>rtype\<close> is the \<open>_type\<close> tag that
  \<open>fetchRepos\<close> adds, absent before.
\<close>

record repo =
  repo_id :: nat
  name :: string
  description :: "string option"
  language :: "string option"
  fork :: bool
  archived :: bool
  stargazers_count :: nat
  forks_count :: nat
  html_url :: string
  url :: string
  created_at :: int
  updated_at :: int
  topics :: "string list option"
  parent :: "parent_ref option"
  rtype :: "string option"

section \<open>The quality check of the incremental generator\<close>

definition badPhrases :: "string list" where
  "badPhrases =
    [''demonstrates thoughtful software design'',
     ''caught my attention for its practical approach'',
     ''Worth investigating if you'' @ [CHR 0x27] @ ''re working with'',
     ''patterns and implementations that could accelerate'',
     ''In the rapidly evolving'',
     ''In the world of'',
     ''In today'' @ [CHR 0x27] @ ''s landscape'',
     ''is paramount'',
     ''aims to streamline'',
     ''comprehensive solution'',
     ''It'' @ [CHR 0x27] @ ''s worth noting'',
     ''leveraging the power'',
     ''game-changer'',
     ''cutting-edge'']"

text \<open>
  \<open>isFallbackArticle(article)\<close>: true when the article has to be generated again.  The
  first test is \<open>!article || article.length < 400\<close>.
\<close>

definition isFallbackArticle :: "string option \<Rightarrow> bool" where
  "isFallbackArticle article =
     (case article of
        None \<Rightarrow> True
      | Some a \<Rightarrow>
          if a = [] \<or> length a < 400 then True
          else list_ex (\<lambda>phrase. includes_str (toLowerCase a) (toLowerCase phrase)) badPhrases)"

text \<open>
  The acceptability policy in the words of the specification, for comparison with the
  negation of \<open>isFallbackArticle\<close>: the article exists, its length exceeds 400 and no
  phrase of the denylist occurs in it, case-insensitively.
\<close>

definition acceptable_spec :: "string option \<Rightarrow> bool" where
  "acceptable_spec article =
     (case article of
        None \<Rightarrow> False
      | Some a \<Rightarrow> length a > 400 \<and>
          \<not> list_ex (\<lambda>phrase. includes_str (toLowerCase a) (toLowerCase phrase)) badPhrases)"

section \<open>The fallback generator of the incremental generator\<close>

definition fallback_long_tail :: "string \<Rightarrow> string" where
  "fallback_long_tail lang =
     [CHR 0x0A, CHR 0x0A] @ ''This '' @ lang @
     '' project caught my attention for its practical approach to solving real developer problems. The codebase offers patterns worth studying for anyone working in this space.''"

definition fallback_short_tail :: "string \<Rightarrow> string" where
  "fallback_short_tail lang =
     '' is a '' @ lang @
     '' project that demonstrates thoughtful software design. While exploring the codebase, I found patterns and implementations that could accelerate similar projects. Worth investigating if you''
     @ [CHR 0x27] @ ''re working with '' @ lang @
     '' or interested in clean, maintainable code architecture.''"

definition generateFallbackSummary :: "repo \<Rightarrow> string" where
  "generateFallbackSummary r =
     (let desc = js_or (description r) [];
          lang = js_or (language r) ''various technologies'';
          nm = replace_char CHR ''_'' CHR '' '' (replace_char CHR ''-'' CHR '' '' (name r))
      in if length desc > 100 then desc @ fallback_long_tail lang
         else nm @ fallback_short_tail lang)"

section \<open>Configuration and model rotation\<close>

text \<open>
  The fields of \<open>CONFIG\<close> that the control flow reads; \<open>available\<close> is
  \<open>CONFIG.models.available\<close>.  The endpoint, token budget and temperature only shape the
  HTTP request and are not modelled.
\<close>

record config =
  username :: string
  reposToShow :: nat
  batchSize :: nat
  apiDelay :: nat
  available :: "string list"

definition CONFIG :: config where
  "CONFIG = \<lparr>username = ''moses-y'', reposToShow = 999, batchSize = 50, apiDelay = 3000,
     available = [''gpt-4o'', ''gpt-4o-mini'', ''gpt-4.1'']\<rparr>"

text \<open>
  The module-level state of the generator: \<open>modelRateLimits\<close>, \<open>currentModelIndex\<close>,
  and, as the record of the effect on the network, the model names of the completion
  requests sent so far (oldest first).
\<close>

record gen_state =
  modelRateLimits :: "string \<Rightarrow> bool"
  currentModelIndex :: nat
  requests :: "string list"

definition initial_gen_state :: gen_state where
  "initial_gen_state = \<lparr>modelRateLimits = (\<lambda>m. False), currentModelIndex = 0, requests = []\<rparr>"

text \<open>The models of the list that are not marked as rate limited.\<close>

definition unmarked :: "config \<Rightarrow> gen_state \<Rightarrow> string list" where
  "unmarked cfg st = filter (\<lambda>m. \<not> modelRateLimits st m) (available cfg)"

text \<open>The \<open>for\<close> loop of \<open>getNextModel\<close>, from index \<open>i\<close> on.\<close>

function getNextModel_from :: "config \<Rightarrow> gen_state \<Rightarrow> nat \<Rightarrow> string option \<times> gen_state" where
  "getNextModel_from cfg st i =
     (if i < length (available cfg) then
        (let model = available cfg ! ((currentModelIndex st + i) mod length (available cfg)) in
         if \<not> modelRateLimits st model
         then (Some model,
               st\<lparr>currentModelIndex := (currentModelIndex st + i + 1) mod length (available cfg)\<rparr>)
         else getNextModel_from cfg st (i + 1))
      else (None, st))"
  by pat_completeness auto
termination
  by (relation "measure (\<lambda>(cfg, st, i). length (available cfg) - i)") auto

declare getNextModel_from.simps [simp del]

definition getNextModel :: "config \<Rightarrow> gen_state \<Rightarrow> string option \<times> gen_state" where
  "getNextModel cfg st = getNextModel_from cfg st 0"

section \<open>The completion endpoint\<close>

text \<open>
  What one request to the completion endpoint yields.  \<open>Throws\<close> stands for any exception
  raised inside the \<open>try\<close> block of \<open>generateBlogArticle\<close> (the fetch rejects, the body
  cannot be read or parsed).  \<open>Http status content\<close> is a delivered response: \<open>status\<close>
  its HTTP status and, for a success, \<open>content\<close> the value of
  \<open>data.choices?.[0]?.message?.content\<close> (\<open>None\<close> when that path is undefined).  The
  prompt is not modelled: the endpoint is an oracle giving the response to the \<open>n\<close>-th
  request of the run (counted from 0) for the model named in it.
\<close>

datatype response = Throws | Http nat "string option"

definition http_ok :: "nat \<Rightarrow> bool" where
  "http_ok status = (200 \<le> status \<and> status \<le> 299)"

definition is_space :: "char \<Rightarrow> bool" where
  "is_space c = ((of_char c :: nat) \<in> {9, 10, 11, 12, 13, 32, 160})"

definition trim :: "string \<Rightarrow> string" where
  "trim s = rev (dropWhile is_space (rev (dropWhile is_space s)))"

definition mark_limited :: "string \<Rightarrow> gen_state \<Rightarrow> gen_state" where
  "mark_limited model st = st\<lparr>modelRateLimits := (modelRateLimits st)(model := True)\<rparr>"

definition log_request :: "string \<Rightarrow> gen_state \<Rightarrow> gen_state" where
  "log_request model st = st\<lparr>requests := requests st @ [model]\<rparr>"

text \<open>
  \<open>generateBlogArticle(repo, readme, fileTree)\<close>.  \<open>tok\<close> is \<open>GITHUB_TOKEN\<close>; the result
  is the returned article (\<open>None\<close> for \<open>null\<close>) and the state after the call.  The test
  \<open>!model\<close> holds of \<open>null\<close> and of an empty model name.
\<close>

function generateBlogArticle ::
  "config \<Rightarrow> string option \<Rightarrow> (nat \<Rightarrow> string \<Rightarrow> response) \<Rightarrow> repo \<Rightarrow> gen_state
     \<Rightarrow> string option \<times> gen_state" where
  "generateBlogArticle cfg tok net r st =
     (if \<not> truthy tok then (Some (generateFallbackSummary r), st)
      else
        (case getNextModel cfg st of
           (None, st1) \<Rightarrow> (None, st1)
         | (Some model, st1) \<Rightarrow>
             if model = [] then (None, st1)
             else
               (case net (length (requests st1)) model of
                  Throws \<Rightarrow> (None, log_request model st1)
                | Http status content \<Rightarrow>
                    if \<not> http_ok status then
                      (if status = 429
                       then generateBlogArticle cfg tok net r
                              (mark_limited model (log_request model st1))
                       else (None, log_request model st1))
                    else
                      (let article = map_option trim content in
                       if truthy article \<and> length (the article) > 400
                       then (article, log_request model st1)
                       else (None, log_request model st1)))))"
  by pat_completeness auto

text \<open>
  What one call does to the state and what it can return: marks are kept, the new
  requests go to distinct models that were not marked, and an article that is returned
  is longer than 400 characters.
\<close>

definition gba_post :: "config \<Rightarrow> gen_state \<Rightarrow> string option \<times> gen_state \<Rightarrow> bool" where
  "gba_post cfg st res =
     ((\<forall>m. modelRateLimits st m \<longrightarrow> modelRateLimits (snd res) m) \<and>
      (\<exists>new. requests (snd res) = requests st @ new \<and> distinct new \<and>
         set new \<subseteq> set (unmarked cfg st)) \<and>
      (fst res = None \<or> (\<exists>a. fst res = Some a \<and> length a > 400)))"

section \<open>Feed documents\<close>

text \<open>
  One entry of the \<open>forks\<close> array of \<open>forks.json\<close>.  \<open>summary\<close> is the article; it
  is optional because a document read from disk need not have the field.  A printed date
  (\<open>formatDate\<close>) is identified with the instant \<open>new Date\<close> reads back from it:
  midnight of that day, in milliseconds, with UTC as the local time zone.
\<close>

record article =
  f_id :: nat
  f_name :: string
  displayName :: string
  f_description :: string
  summary :: "string option"
  f_url :: string
  f_language :: "string option"
  stars :: nat
  f_forks :: nat
  f_topics :: "string list"
  f_parent :: "parent_ref option"
  f_type :: "string option"
  image :: string
  forkedAt :: int
  updatedAt :: int
  readTime :: nat

record progress_counts =
  aiGenerated :: nat
  fallback :: nat
  pending :: nat
  complete :: bool

record document =
  lastUpdated :: int
  generatedWith :: string
  totalRepos :: nat
  progress :: progress_counts
  forks :: "article list"

text \<open>
  The file \<open>forks.json\<close>: missing, present but not parsable as JSON, or holding a
  document.
\<close>

datatype file_state = Absent | Corrupt | Stored document

text \<open>
  \<open>loadExistingArticles\<close>: the \<open>Map\<close> from \<open>fork.id\<close> to the entry, later entries
  replacing earlier ones; empty when the file is missing or reading it throws.
\<close>

definition loadExistingArticles :: "file_state \<Rightarrow> (nat \<rightharpoonup> article)" where
  "loadExistingArticles f =
     (case f of
        Stored d \<Rightarrow> fold (\<lambda>fk existing. existing(f_id fk \<mapsto> fk)) (forks d) Map.empty
      | _ \<Rightarrow> Map.empty)"

definition unsplashPhotos :: "string list" where
  "unsplashPhotos =
    [''1461749280684-dccba630e2f6'', ''1555066931-4365d14bab8c'', ''1504639725590-34d0984388bd'',
     ''1526374965328-7f61d4dc18c5'', ''1518770660439-4636190af475'', ''1451187580459-43490279c0fa'',
     ''1550751827-4bd374c3f58b'', ''1558494949-ef010cbdcc31'', ''1485827404703-89b55fcc595e'',
     ''1531482615713-2afd69097998'', ''1542831371-29b0f74f9713'', ''1607799279861-4dd421887fb3'']"

definition getRandomUnsplashUrl :: "nat \<Rightarrow> string" where
  "getRandomUnsplashUrl index =
     ''https://images.unsplash.com/photo-'' @ unsplashPhotos ! (index mod length unsplashPhotos)
       @ ''?w=800&h=400&fit=crop&q=80''"

definition formatDate :: "int \<Rightarrow> int" where
  "formatDate t = (t div 86400000) * 86400000"

text \<open>
  \<open>content.split(/\s+/).length\<close> is one more than the number of maximal runs of white
  space in \<open>content\<close>; the flag says whether the previous character was white space.
\<close>

fun count_ws_runs :: "string \<Rightarrow> bool \<Rightarrow> nat" where
  "count_ws_runs [] in_run = 0"
| "count_ws_runs (c # cs) in_run =
     (if is_space c then (if in_run then 0 else 1) + count_ws_runs cs True
      else count_ws_runs cs False)"

definition estimateReadTime :: "string \<Rightarrow> nat" where
  "estimateReadTime content =
     (let words = count_ws_runs content False + 1 in max 2 ((words + 199) div 200))"

section \<open>The hosting API\<close>

text \<open>
  One page of the repository list: the request throws, or a response arrives with a status
  and (for a success) the parsed array.  The detail request of a repository yields its
  topics and its upstream parent, or nothing when it fails in any way.
\<close>

datatype page_response = PageThrows | Page nat "repo list"

datatype error = GitHubApiError nat | FetchFailed

record detail =
  d_topics :: "string list option"
  d_parent :: "parent_ref option"

text \<open>
  Everything outside the process that a run reads: the file, the two remote services and
  the clock.  \<open>github\<close> answers the list request for a page number, \<open>details\<close> the detail
  request for a repository URL, \<open>completion\<close> the \<open>n\<close>-th completion request for a model.
  The README and file-tree requests only feed the prompt and are left out with it.
\<close>

record world =
  forks_json :: file_state
  github :: "nat \<Rightarrow> page_response"
  details :: "string \<Rightarrow> detail option"
  completion :: "nat \<Rightarrow> string \<Rightarrow> response"
  clock :: int

text \<open>
  The \<open>while (true)\<close> loop of \<open>fetchRepos\<close>.  It need not end (a server may return full
  pages for ever), so not returning is the value \<open>None\<close>.
\<close>

partial_function (option) fetchPages ::
  "(nat \<Rightarrow> page_response) \<Rightarrow> nat \<Rightarrow> repo list \<Rightarrow> (error + repo list) option" where
  "fetchPages api page allRepos =
     (case api page of
        PageThrows \<Rightarrow> Some (Inl FetchFailed)
      | Page status repos \<Rightarrow>
          if \<not> http_ok status then Some (Inl (GitHubApiError status))
          else if repos = [] then Some (Inr allRepos)
          else if length repos < 100 then Some (Inr (allRepos @ repos))
          else fetchPages api (page + 1) (allRepos @ repos))"

definition tag_repo :: "repo \<Rightarrow> repo" where
  "tag_repo r = r\<lparr>rtype := Some (if fork r then ''fork'' else ''original'')\<rparr>"

text \<open>
  The tail of \<open>fetchRepos\<close>: tag, filter, sort.  \<open>Array.prototype.sort\<close> is stable and the
  comparator orders by \<open>updated_at\<close>, latest first; \<^const>\<open>sort_key\<close> is a stable
  insertion sort, here on the negated timestamp.
\<close>

definition select_repos :: "repo list \<Rightarrow> repo list" where
  "select_repos allRepos =
     sort_key (\<lambda>r. - updated_at r)
       (filter (\<lambda>r. \<not> includes_str (name r) ''.github.io'' \<and> \<not> archived r)
          (map tag_repo allRepos))"

definition fetchRepos :: "(nat \<Rightarrow> page_response) \<Rightarrow> (error + repo list) option" where
  "fetchRepos api =
     (case fetchPages api 1 [] of
        None \<Rightarrow> None
      | Some (Inl e) \<Rightarrow> Some (Inl e)
      | Some (Inr allRepos) \<Rightarrow> Some (Inr (select_repos allRepos)))"

definition fetchRepoDetails :: "world \<Rightarrow> repo \<Rightarrow> repo" where
  "fetchRepoDetails w r =
     (case details w (url r) of
        Some d \<Rightarrow> r\<lparr>topics := Some (case d_topics d of None \<Rightarrow> [] | Some t \<Rightarrow> t),
                    parent := d_parent d\<rparr>
      | None \<Rightarrow> r)"

text \<open>
  A server that holds a finite list of repositories and serves it in pages of 100, as the
  hosting API does for \<open>per_page=100\<close>.
\<close>

definition paged_api :: "repo list \<Rightarrow> nat \<Rightarrow> page_response" where
  "paged_api srv page = Page 200 (take 100 (drop (100 * (page - 1)) srv))"

section \<open>The incremental generator\<close>

text \<open>The loop of \<open>main\<close> that fills \<open>hasArticle\<close> and \<open>needsGeneration\<close>.\<close>

definition classify_step ::
  "(nat \<rightharpoonup> article) \<Rightarrow> repo \<Rightarrow> (repo \<times> article) list \<times> repo list
     \<Rightarrow> (repo \<times> article) list \<times> repo list" where
  "classify_step existingArticles r acc =
     (case existingArticles (repo_id r) of
        Some existing \<Rightarrow>
          if \<not> isFallbackArticle (summary existing)
          then (fst acc @ [(r, existing)], snd acc)
          else (fst acc, snd acc @ [r])
      | None \<Rightarrow> (fst acc, snd acc @ [r]))"

definition partition_repos ::
  "(nat \<rightharpoonup> article) \<Rightarrow> repo list \<Rightarrow> (repo \<times> article) list \<times> repo list" where
  "partition_repos existingArticles recentRepos =
     fold (classify_step existingArticles) recentRepos ([], [])"

text \<open>The test of that loop, negated: the repository goes to \<open>needsGeneration\<close>.\<close>

definition needs_regen :: "(nat \<rightharpoonup> article) \<Rightarrow> repo \<Rightarrow> bool" where
  "needs_regen existingArticles r =
     (case existingArticles (repo_id r) of
        None \<Rightarrow> True
      | Some existing \<Rightarrow> isFallbackArticle (summary existing))"

text \<open>The entry pushed for a repository that keeps its article.\<close>

definition preserve :: "world \<Rightarrow> repo \<Rightarrow> article \<Rightarrow> article" where
  "preserve w r existing =
     (let detailed = fetchRepoDetails w r in
      existing\<lparr>f_description := js_or (description r) (f_description existing),
               f_language := language r,
               stars := stargazers_count r,
               f_forks := forks_count r,
               f_topics := (case topics detailed of None \<Rightarrow> f_topics existing | Some t \<Rightarrow> t),
               f_parent := (case parent detailed of None \<Rightarrow> f_parent existing | Some p \<Rightarrow> Some p),
               f_type := rtype r,
               updatedAt := formatDate (updated_at r)\<rparr>)"

text \<open>The entry pushed for a repository of the batch.\<close>

definition new_article :: "nat \<Rightarrow> repo \<Rightarrow> repo \<Rightarrow> string \<Rightarrow> article" where
  "new_article i r detailed finalArticle =
     \<lparr>f_id = repo_id r,
      f_name = name r,
      displayName = replace_char CHR ''_'' CHR '' '' (replace_char CHR ''-'' CHR '' '' (name r)),
      f_description = js_or (description r) ''No description available'',
      summary = Some finalArticle,
      f_url = html_url r,
      f_language = language r,
      stars = stargazers_count r,
      f_forks = forks_count r,
      f_topics = (case topics detailed of None \<Rightarrow> [] | Some t \<Rightarrow> t),
      f_parent = parent detailed,
      f_type = Some (js_or (rtype r) ''fork''),
      image = getRandomUnsplashUrl i,
      forkedAt = formatDate (created_at r),
      updatedAt = formatDate (updated_at r),
      readTime = estimateReadTime finalArticle\<rparr>"

text \<open>The variables of the batch loop, with the module-level state and \<open>forks\<close>.\<close>

record loop_state =
  gen :: gen_state
  consecutiveRateLimits :: nat
  aiSuccessCount :: nat
  rateLimitHit :: bool
  aiCallCount :: nat
  acc_forks :: "article list"

text \<open>The block \<open>if (!rateLimitHit) { ... }\<close> of one iteration.\<close>

definition try_generate ::
  "config \<Rightarrow> string option \<Rightarrow> world \<Rightarrow> repo \<Rightarrow> loop_state \<Rightarrow> string option \<times> loop_state" where
  "try_generate cfg tok w detailed ls =
     (if \<not> rateLimitHit ls then
        (let (article, g) = generateBlogArticle cfg tok (completion w) detailed (gen ls);
             ls1 = ls\<lparr>gen := g, aiCallCount := aiCallCount ls + 1\<rparr>
         in if truthy article
            then (article, ls1\<lparr>consecutiveRateLimits := 0, aiSuccessCount := aiSuccessCount ls1 + 1\<rparr>)
            else (let ls2 = ls1\<lparr>consecutiveRateLimits := consecutiveRateLimits ls1 + 1\<rparr>
                  in (article,
                      if consecutiveRateLimits ls2 \<ge> 3 then ls2\<lparr>rateLimitHit := True\<rparr> else ls2)))
      else (None, ls))"

fun process_batch ::
  "config \<Rightarrow> string option \<Rightarrow> world \<Rightarrow> nat \<Rightarrow> repo list \<Rightarrow> loop_state \<Rightarrow> loop_state" where
  "process_batch cfg tok w i [] ls = ls"
| "process_batch cfg tok w i (r # rs) ls =
     (let detailed = fetchRepoDetails w r;
          res = try_generate cfg tok w detailed ls;
          finalArticle = js_or (fst res) (generateFallbackSummary r)
      in process_batch cfg tok w (i + 1) rs
           ((snd res)\<lparr>acc_forks := acc_forks (snd res) @ [new_article i r detailed finalArticle]\<rparr>))"

text \<open>
  The entries that the batch loop pushes when every article of the batch is the fallback
  one, and the condition that the completion endpoint cannot be reached.
\<close>

fun fallback_entries :: "world \<Rightarrow> nat \<Rightarrow> repo list \<Rightarrow> article list" where
  "fallback_entries w i [] = []"
| "fallback_entries w i (r # rs) =
     new_article i r (fetchRepoDetails w r) (generateFallbackSummary r) # fallback_entries w (i + 1) rs"

definition unreachable :: "world \<Rightarrow> bool" where
  "unreachable w = (\<forall>n model. completion w n model = Throws)"

text \<open>The queue of a run and the part of it that the run processes.\<close>

definition needsGeneration_of :: "config \<Rightarrow> world \<Rightarrow> repo list \<Rightarrow> repo list" where
  "needsGeneration_of cfg w repos =
     snd (partition_repos (loadExistingArticles (forks_json w)) (take (reposToShow cfg) repos))"

definition hasArticle_of :: "config \<Rightarrow> world \<Rightarrow> repo list \<Rightarrow> (repo \<times> article) list" where
  "hasArticle_of cfg w repos =
     fst (partition_repos (loadExistingArticles (forks_json w)) (take (reposToShow cfg) repos))"

definition batchToProcess_of :: "config \<Rightarrow> world \<Rightarrow> repo list \<Rightarrow> repo list" where
  "batchToProcess_of cfg w repos = take (batchSize cfg) (needsGeneration_of cfg w repos)"

text \<open>The entries pushed by the first loop, for the repositories that keep their article.\<close>

definition preserved_of :: "config \<Rightarrow> world \<Rightarrow> repo list \<Rightarrow> article list" where
  "preserved_of cfg w repos = map (\<lambda>(r, existing). preserve w r existing) (hasArticle_of cfg w repos)"

text \<open>The state in which the batch loop starts, and the one in which it ends.\<close>

definition initial_loop_state :: "article list \<Rightarrow> loop_state" where
  "initial_loop_state preserved =
     \<lparr>gen = initial_gen_state, consecutiveRateLimits = 0, aiSuccessCount = 0,
      rateLimitHit = False, aiCallCount = 0, acc_forks = preserved\<rparr>"

definition run_loops :: "config \<Rightarrow> string option \<Rightarrow> world \<Rightarrow> repo list \<Rightarrow> loop_state" where
  "run_loops cfg tok w repos =
     process_batch cfg tok w 0 (batchToProcess_of cfg w repos)
       (initial_loop_state (preserved_of cfg w repos))"

text \<open>The document that \<open>main\<close> assembles once \<open>fetchRepos\<close> has returned \<open>repos\<close>.\<close>

definition build_output :: "config \<Rightarrow> string option \<Rightarrow> world \<Rightarrow> repo list \<Rightarrow> document" where
  "build_output cfg tok w repos =
     (let needsGeneration = needsGeneration_of cfg w repos;
          batchToProcess = batchToProcess_of cfg w repos;
          sorted_forks = sort_key (\<lambda>f. - updatedAt f) (acc_forks (run_loops cfg tok w repos));
          aiArticleCount = length (filter (\<lambda>f. \<not> isFallbackArticle (summary f)) sorted_forks);
          fallbackCount = length sorted_forks - aiArticleCount;
          pendingCount = length needsGeneration - length batchToProcess
      in \<lparr>lastUpdated = clock w,
          generatedWith = ''GitHub Models API (GPT-4o, GPT-4o-mini, GPT-4.1)'',
          totalRepos = length sorted_forks,
          progress = \<lparr>aiGenerated = aiArticleCount, fallback = fallbackCount,
                      pending = pendingCount, complete = (pendingCount = 0)\<rparr>,
          forks = sorted_forks\<rparr>)"

text \<open>
  The effects of a run on the world outside the process, as events in the order in which
  they happen: reading the file (\<open>loadExistingArticles\<close>), listing the repositories
  (\<open>fetchRepos\<close>, all its page requests), a completion request for a model, the
  \<open>writeFileSync\<close> of a document, the \<open>console.error\<close> of the top-level \<open>catch\<close> and
  the end of the process with a status.  Detail, README and file-tree requests are not
  recorded.
\<close>

datatype event =
  LoadFile | ListRepos | Complete string | WriteFile document | PrintError error | ExitProcess nat

fun is_write :: "event \<Rightarrow> bool" where
  "is_write (WriteFile d) = True"
| "is_write e = False"

fun is_completion :: "event \<Rightarrow> bool" where
  "is_completion (Complete model) = True"
| "is_completion e = False"

text \<open>
  What a run leaves behind: the exit status of the process, the errors printed by the
  top-level \<open>catch\<close>, the file, the documents written to it (in order), the models of
  the completion requests sent and the events of the run.
\<close>

record outcome =
  exit_code :: nat
  stderr :: "error list"
  disk :: file_state
  writes :: "document list"
  sent :: "string list"
  trace :: "event list"

text \<open>
  \<open>main().catch(...)\<close>.  The only statement of \<open>main\<close> that can throw before the write
  is \<open>fetchRepos\<close>; a run whose pagination never ends has no outcome.  The write is
  taken to succeed.  The completion requests of the trace are those the batch loop logged,
  in its order; the write follows the loop and the sort, and the process ends after it.
\<close>

definition main :: "config \<Rightarrow> string option \<Rightarrow> world \<Rightarrow> outcome option" where
  "main cfg tok w =
     (case fetchRepos (github w) of
        None \<Rightarrow> None
      | Some (Inl e) \<Rightarrow>
          Some \<lparr>exit_code = 1, stderr = [e], disk = forks_json w, writes = [], sent = [],
                trace = [LoadFile, ListRepos, PrintError e, ExitProcess 1]\<rparr>
      | Some (Inr repos) \<Rightarrow>
          (let output = build_output cfg tok w repos;
               sent_requests = requests (gen (run_loops cfg tok w repos))
           in Some \<lparr>exit_code = 0, stderr = [], disk = Stored output, writes = [output],
                    sent = sent_requests,
                    trace = [LoadFile, ListRepos] @ map Complete sent_requests
                              @ [WriteFile output, ExitProcess 0]\<rparr>))"

text \<open>A second run of the generator on the file that the first run left.\<close>

definition second_run :: "config \<Rightarrow> string option \<Rightarrow> world \<Rightarrow> outcome option" where
  "second_run cfg tok w =
     (case main cfg tok w of
        None \<Rightarrow> None
      | Some out \<Rightarrow> main cfg tok (w\<lparr>forks_json := disk out\<rparr>))"

text \<open>The \<open>progress.pending\<close> of the document a run wrote last.\<close>

definition reported_pending :: "outcome option \<Rightarrow> nat option" where
  "reported_pending res =
     (case res of
        None \<Rightarrow> None
      | Some out \<Rightarrow> (case writes out of [] \<Rightarrow> None | _ \<Rightarrow> Some (pending (progress (last (writes out))))))"

section \<open>The earlier scripts\<close>

text \<open>
  The first version of \<open>update-forks.js\<close> and the script before it, which lists forks
  only, have the same fallback generator and the same summary generator, but for the dash
  of the third template: the older script has an em dash, written here as its three UTF-8
  bytes; the first version of \<open>update-forks.js\<close> holds the mis-encoded form of that dash,
  written here as the eight bytes of the file.  \<open>rnd\<close> is the value of
  \<open>Math.floor(Math.random() * templates.length)\<close>.  \<open>generateBlogSummary(repo)\<close> is given
  the response that its one request would get and returns the summary and the number of
  completion requests sent.
\<close>

definition templates_forks :: "string \<Rightarrow> string \<Rightarrow> string list" where
  "templates_forks lang nm =
    [''A compelling '' @ lang @ '' project that explores '' @ nm @
       ''. Worth diving into for developers interested in modern software patterns and clean implementations.'',
     nm @ '' offers an interesting approach built with '' @ lang @
       ''. The codebase demonstrates practical solutions that could accelerate your next project.'',
     ''Exploring '' @ nm @ '' '' @ [CHR 0xE2, CHR 0x80, CHR 0x94] @ '' a '' @ lang @
       '' repository that caught my attention. It showcases techniques worth understanding for any serious developer.'']"

definition generateFallbackSummary_forks :: "nat \<Rightarrow> repo \<Rightarrow> string" where
  "generateFallbackSummary_forks rnd r =
     (let desc = js_or (description r) [];
          lang = js_or (language r) ''various technologies'';
          nm = replace_char CHR ''_'' CHR '' '' (replace_char CHR ''-'' CHR '' '' (name r))
      in if length desc > 50 then desc
         else templates_forks lang nm ! (rnd mod length (templates_forks lang nm)))"

definition generateBlogSummary_forks :: "string option \<Rightarrow> response \<Rightarrow> nat \<Rightarrow> repo \<Rightarrow> string \<times> nat" where
  "generateBlogSummary_forks tok resp rnd r =
     (if \<not> truthy tok then (generateFallbackSummary_forks rnd r, 0)
      else
        (case resp of
           Throws \<Rightarrow> (generateFallbackSummary_forks rnd r, 1)
         | Http status content \<Rightarrow>
             if \<not> http_ok status then (generateFallbackSummary_forks rnd r, 1)
             else
               (let summary = map_option trim content in
                if truthy summary \<and> length (the summary) > 20 then (the summary, 1)
                else (generateFallbackSummary_forks rnd r, 1))))"

definition templates_v1 :: "string \<Rightarrow> string \<Rightarrow> string list" where
  "templates_v1 lang nm =
    [''A compelling '' @ lang @ '' project that explores '' @ nm @
       ''. Worth diving into for developers interested in modern software patterns and clean implementations.'',
     nm @ '' offers an interesting approach built with '' @ lang @
       ''. The codebase demonstrates practical solutions that could accelerate your next project.'',
     ''Exploring '' @ nm @ '' ''
       @ [CHR 0xC3, CHR 0xA2, CHR 0xE2, CHR 0x82, CHR 0xAC, CHR 0xE2, CHR 0x80, CHR 0x9D]
       @ '' a '' @ lang @
       '' repository that caught my attention. It showcases techniques worth understanding for any serious developer.'']"

definition generateFallbackSummary_v1 :: "nat \<Rightarrow> repo \<Rightarrow> string" where
  "generateFallbackSummary_v1 rnd r =
     (let desc = js_or (description r) [];
          lang = js_or (language r) ''various technologies'';
          nm = replace_char CHR ''_'' CHR '' '' (replace_char CHR ''-'' CHR '' '' (name r))
      in if length desc > 50 then desc
         else templates_v1 lang nm ! (rnd mod length (templates_v1 lang nm)))"

definition generateBlogSummary_v1 :: "string option \<Rightarrow> response \<Rightarrow> nat \<Rightarrow> repo \<Rightarrow> string \<times> nat" where
  "generateBlogSummary_v1 tok resp rnd r =
     (if \<not> truthy tok then (generateFallbackSummary_v1 rnd r, 0)
      else
        (case resp of
           Throws \<Rightarrow> (generateFallbackSummary_v1 rnd r, 1)
         | Http status content \<Rightarrow>
             if \<not> http_ok status then (generateFallbackSummary_v1 rnd r, 1)
             else
               (let summary = map_option trim content in
                if truthy summary \<and> length (the summary) > 20 then (the summary, 1)
                else (generateFallbackSummary_v1 rnd r, 1))))"

text \<open>\<open>fetchRepos\<close> of the first version: one request, two filters, the same sort.\<close>

definition fetchRepos_v1 :: "page_response \<Rightarrow> error + repo list" where
  "fetchRepos_v1 resp =
     (case resp of
        PageThrows \<Rightarrow> Inl FetchFailed
      | Page status repos \<Rightarrow>
          if \<not> http_ok status then Inl (GitHubApiError status)
          else Inr (sort_key (\<lambda>r. - updated_at r)
                 (filter (\<lambda>r. \<not> archived r)
                   (filter (\<lambda>r. \<not> includes_str (name r) ''.github.io'')
                     (map tag_repo repos)))))"

section \<open>Sample inputs\<close>

text \<open>
  A repository, the same with a description of 56 characters, and an endpoint that answers
  every request with status 429.
\<close>

definition sample_repo :: "nat \<Rightarrow> repo" where
  "sample_repo i =
     \<lparr>repo_id = i, name = ''demo-repo'', description = None, language = Some ''Go'',
      fork = False, archived = False, stargazers_count = 0, forks_count = 0,
      html_url = ''https://github.com/moses-y/demo-repo'',
      url = ''https://api.github.com/repos/moses-y/demo-repo'',
      created_at = 0, updated_at = 0, topics = None, parent = None, rtype = None\<rparr>"

definition described_repo :: repo where
  "described_repo =
     (sample_repo 0)\<lparr>description := Some ''A small command line tool that prints rows of demo data.''\<rparr>"

definition rate_limited_net :: "nat \<Rightarrow> string \<Rightarrow> response" where
  "rate_limited_net n model = Http 429 None"

text \<open>
  Worlds: one whose completion endpoint cannot be reached and whose file is missing, one
  whose list request fails with status 500, and one whose file holds an entry with an
  article that passes the quality check; and the outcome of a run in the second.
\<close>

definition offline_world :: "repo list \<Rightarrow> world" where
  "offline_world srv =
     \<lparr>forks_json = Absent, github = paged_api srv, details = (\<lambda>u. None),
      completion = (\<lambda>n model. Throws), clock = 0\<rparr>"

definition broken_api_world :: world where
  "broken_api_world = (offline_world [])\<lparr>github := (\<lambda>page. Page 500 [])\<rparr>"

definition good_article :: article where
  "good_article =
     \<lparr>f_id = 7, f_name = ''demo-repo'', displayName = ''demo repo'',
      f_description = ''No description available'',
      summary = Some (replicate 400 CHR ''z''),
      f_url = ''https://github.com/moses-y/demo-repo'', f_language = Some ''Go'',
      stars = 0, f_forks = 0, f_topics = [], f_parent = None, f_type = Some ''original'',
      image = getRandomUnsplashUrl 0, forkedAt = 0, updatedAt = 0, readTime = 2\<rparr>"

definition stored_world :: world where
  "stored_world =
     (offline_world [sample_repo 7])
       \<lparr>forks_json := Stored \<lparr>lastUpdated = 0, generatedWith = [], totalRepos = 1,
           progress = \<lparr>aiGenerated = 1, fallback = 0, pending = 0, complete = True\<rparr>,
           forks = [good_article]\<rparr>\<rparr>"

definition api_error_outcome :: outcome where
  "api_error_outcome =
     \<lparr>exit_code = 1, stderr = [GitHubApiError 500], disk = Absent, writes = [], sent = [],
      trace = [LoadFile, ListRepos, PrintError (GitHubApiError 500), ExitProcess 1]\<rparr>"

section \<open>Facts about strings\<close>

lemma starts_with_append: "starts_with (p @ s) p"
  by (induction p) auto

lemma includes_str_starts: "starts_with s p \<Longrightarrow> includes_str s p"
  by (cases s) (auto elim: starts_with.elims)

lemma includes_str_append: "includes_str (a @ p @ b) p"
proof (induction a)
  case Nil
  show ?case by (simp add: includes_str_starts starts_with_append)
next
  case (Cons c a)
  then show ?case by simp
qed

lemma includes_lower_embedded:
  "includes_str (toLowerCase (a @ p @ b)) (toLowerCase p)"
  by (simp add: toLowerCase_def includes_str_append)

lemma includes_str_hd: "includes_str s p \<Longrightarrow> p \<noteq> [] \<Longrightarrow> hd p \<in> set s"
proof (induction s)
  case Nil
  then show ?case by simp
next
  case (Cons c cs)
  then show ?case by (cases p) auto
qed

section \<open>Facts about model rotation\<close>

lemma getNextModel_from_Some:
  "getNextModel_from cfg st i = (Some m, st') \<Longrightarrow>
     m \<in> set (available cfg) \<and> \<not> modelRateLimits st m \<and>
     modelRateLimits st' = modelRateLimits st \<and> requests st' = requests st"
proof (induction cfg st i rule: getNextModel_from.induct)
  case (1 cfg st i)
  show ?case
  proof (cases "i < length (available cfg)")
    case False
    with "1.prems" show ?thesis by (simp add: getNextModel_from.simps[of cfg st i])
  next
    case True
    let ?model = "available cfg ! ((currentModelIndex st + i) mod length (available cfg))"
    from True have mem: "?model \<in> set (available cfg)"
      by (intro nth_mem mod_less_divisor) auto
    show ?thesis
    proof (cases "modelRateLimits st ?model")
      case True
      with \<open>i < length (available cfg)\<close> "1.prems" "1.IH" show ?thesis
        by (simp add: getNextModel_from.simps[of cfg st i] Let_def)
    next
      case False
      with \<open>i < length (available cfg)\<close> "1.prems" mem show ?thesis
        by (auto simp: getNextModel_from.simps[of cfg st i] Let_def)
    qed
  qed
qed

lemma unmarked_mark_less:
  assumes "model \<in> set (available cfg)" and "\<not> modelRateLimits st model"
    and same: "modelRateLimits st' = modelRateLimits st"
  shows "length (unmarked cfg (mark_limited model st')) < length (unmarked cfg st)"
proof -
  have "unmarked cfg (mark_limited model st') = filter (\<lambda>m. m \<noteq> model) (unmarked cfg st)"
    unfolding unmarked_def mark_limited_def using same by (auto intro: filter_cong)
  moreover have "model \<in> set (unmarked cfg st)"
    using assms by (simp add: unmarked_def)
  ultimately show ?thesis
    by (simp add: length_filter_less[where x = model])
qed

text \<open>
  Each recursive call of \<open>generateBlogArticle\<close> follows the marking of a model that
  \<open>getNextModel\<close> returned, hence of a model not marked before: the number of unmarked
  models falls, and the recursion ends.
\<close>

termination generateBlogArticle
  apply (relation "measure (\<lambda>(cfg, tok, net, r, st). length (unmarked cfg st))")
   apply simp
  apply (simp add: getNextModel_def)
  apply (drule sym)
  apply (drule getNextModel_from_Some)
  apply (rule unmarked_mark_less)
    apply (auto simp: log_request_def)
  done

declare generateBlogArticle.simps [simp del]

lemma getNextModel_from_None:
  "getNextModel_from cfg st i = (None, st') \<Longrightarrow>
     st' = st \<and> (\<forall>j. i \<le> j \<and> j < length (available cfg) \<longrightarrow>
        modelRateLimits st (available cfg ! ((currentModelIndex st + j) mod length (available cfg))))"
proof (induction cfg st i rule: getNextModel_from.induct)
  case (1 cfg st i)
  show ?case
  proof (cases "i < length (available cfg)")
    case False
    with "1.prems" have "st' = st" by (simp add: getNextModel_from.simps[of cfg st i])
    with False show ?thesis by auto
  next
    case True
    let ?model = "available cfg ! ((currentModelIndex st + i) mod length (available cfg))"
    show ?thesis
    proof (cases "modelRateLimits st ?model")
      case False
      with True "1.prems" show ?thesis
        by (simp add: getNextModel_from.simps[of cfg st i] Let_def)
    next
      case marked: True
      with True "1.prems" have "getNextModel_from cfg st (i + 1) = (None, st')"
        by (simp add: getNextModel_from.simps[of cfg st i] Let_def)
      from "1.IH"[OF True refl _ this] marked
      have ih: "st' = st" "\<forall>j. i + 1 \<le> j \<and> j < length (available cfg) \<longrightarrow>
        modelRateLimits st (available cfg ! ((currentModelIndex st + j) mod length (available cfg)))"
        by auto
      show ?thesis
      proof (intro conjI allI impI)
        show "st' = st" by (rule ih(1))
      next
        fix j assume j: "i \<le> j \<and> j < length (available cfg)"
        show "modelRateLimits st (available cfg ! ((currentModelIndex st + j) mod length (available cfg)))"
        proof (cases "j = i")
          case True
          with marked show ?thesis by simp
        next
          case False
          with j have "i + 1 \<le> j \<and> j < length (available cfg)" by simp
          with ih(2) show ?thesis by blast
        qed
      qed
    qed
  qed
qed

lemma rotation_onto:
  assumes "k < (n::nat)"
  shows "\<exists>j < n. (c + j) mod n = k"
proof -
  let ?a = "c mod n"
  have a: "?a < n" using assms by simp
  show ?thesis
  proof (cases "?a \<le> k")
    case True
    have "(c + (k - ?a)) mod n = (?a + (k - ?a)) mod n" by (simp add: mod_add_left_eq)
    also have "\<dots> = k" using True assms by simp
    finally show ?thesis using assms True by (intro exI[of _ "k - ?a"]) auto
  next
    case False
    have "(c + (n + k - ?a)) mod n = (?a + (n + k - ?a)) mod n" by (simp add: mod_add_left_eq)
    also have "\<dots> = (n + k) mod n" using a by simp
    also have "\<dots> = k" using assms by simp
    finally show ?thesis using assms False a by (intro exI[of _ "n + k - ?a"]) auto
  qed
qed

lemma getNextModel_None:
  assumes "getNextModel cfg st = (None, st')"
  shows "st' = st \<and> unmarked cfg st = []"
proof -
  from assms have g: "getNextModel_from cfg st 0 = (None, st')" by (simp add: getNextModel_def)
  from getNextModel_from_None[OF g] have st: "st' = st"
    and all: "\<And>j. j < length (available cfg) \<Longrightarrow>
        modelRateLimits st (available cfg ! ((currentModelIndex st + j) mod length (available cfg)))"
    by auto
  have "modelRateLimits st m" if "m \<in> set (available cfg)" for m
  proof -
    from that obtain k where k: "k < length (available cfg)" "available cfg ! k = m"
      by (auto simp: in_set_conv_nth)
    from rotation_onto[OF k(1), of "currentModelIndex st"] obtain j where
      "j < length (available cfg)" "(currentModelIndex st + j) mod length (available cfg) = k" by blast
    with all[of j] k(2) show ?thesis by simp
  qed
  then have "unmarked cfg st = []" by (simp add: unmarked_def)
  with st show ?thesis by simp
qed

lemma getNextModel_from_all_marked:
  "unmarked cfg st = [] \<Longrightarrow> getNextModel_from cfg st i = (None, st)"
proof (induction cfg st i rule: getNextModel_from.induct)
  case (1 cfg st i)
  show ?case
  proof (cases "i < length (available cfg)")
    case False
    then show ?thesis by (simp add: getNextModel_from.simps[of cfg st i])
  next
    case True
    let ?model = "available cfg ! ((currentModelIndex st + i) mod length (available cfg))"
    from True have "?model \<in> set (available cfg)"
      by (intro nth_mem mod_less_divisor) auto
    with "1.prems" have marked: "modelRateLimits st ?model"
      by (auto simp: unmarked_def filter_empty_conv)
    with True "1.IH"[OF True refl _ "1.prems"] show ?thesis
      by (simp add: getNextModel_from.simps[of cfg st i] Let_def)
  qed
qed

lemma getNextModel_None_iff:
  "(fst (getNextModel cfg st) = None) = (\<forall>m \<in> set (available cfg). modelRateLimits st m)"
proof
  assume "fst (getNextModel cfg st) = None"
  then have "getNextModel cfg st = (None, snd (getNextModel cfg st))"
    by (metis prod.collapse)
  from getNextModel_None[OF this] show "\<forall>m \<in> set (available cfg). modelRateLimits st m"
    by (simp add: unmarked_def filter_empty_conv)
next
  assume "\<forall>m \<in> set (available cfg). modelRateLimits st m"
  then have "unmarked cfg st = []" by (simp add: unmarked_def filter_empty_conv)
  from getNextModel_from_all_marked[OF this, of 0] show "fst (getNextModel cfg st) = None"
    by (simp add: getNextModel_def)
qed

lemma getNextModel_Some:
  assumes "getNextModel cfg st = (Some m, st')"
  shows "m \<in> set (available cfg)" "\<not> modelRateLimits st m"
    "modelRateLimits st' = modelRateLimits st" "requests st' = requests st"
  using getNextModel_from_Some[of cfg st 0 m st'] assms by (simp_all add: getNextModel_def)

section \<open>Facts about the article generator\<close>

lemma gba_no_token:
  "\<not> truthy tok \<Longrightarrow> generateBlogArticle cfg tok net r st = (Some (generateFallbackSummary r), st)"
  by (simp add: generateBlogArticle.simps)

lemma gba_exhausted:
  "truthy tok \<Longrightarrow> getNextModel cfg st = (None, st1) \<Longrightarrow>
     generateBlogArticle cfg tok net r st = (None, st1)"
  by (simp add: generateBlogArticle.simps)

lemma gba_unnamed:
  "truthy tok \<Longrightarrow> getNextModel cfg st = (Some [], st1) \<Longrightarrow>
     generateBlogArticle cfg tok net r st = (None, st1)"
  by (simp add: generateBlogArticle.simps[of cfg tok net r st])

lemma gba_rate_limited:
  "truthy tok \<Longrightarrow> getNextModel cfg st = (Some model, st1) \<Longrightarrow> model \<noteq> [] \<Longrightarrow>
   net (length (requests st1)) model = Http 429 content \<Longrightarrow>
     generateBlogArticle cfg tok net r st =
       generateBlogArticle cfg tok net r (mark_limited model (log_request model st1))"
  by (simp add: generateBlogArticle.simps[of cfg tok net r st] http_ok_def)

lemma gba_failed:
  "truthy tok \<Longrightarrow> getNextModel cfg st = (Some model, st1) \<Longrightarrow> model \<noteq> [] \<Longrightarrow>
   net (length (requests st1)) model = Http status content \<Longrightarrow>
   \<not> http_ok status \<Longrightarrow> status \<noteq> 429 \<Longrightarrow>
     generateBlogArticle cfg tok net r st = (None, log_request model st1)"
  by (simp add: generateBlogArticle.simps[of cfg tok net r st])

lemma gba_throws:
  "truthy tok \<Longrightarrow> getNextModel cfg st = (Some model, st1) \<Longrightarrow> model \<noteq> [] \<Longrightarrow>
   net (length (requests st1)) model = Throws \<Longrightarrow>
     generateBlogArticle cfg tok net r st = (None, log_request model st1)"
  by (simp add: generateBlogArticle.simps[of cfg tok net r st])

lemma gba_answered:
  "truthy tok \<Longrightarrow> getNextModel cfg st = (Some model, st1) \<Longrightarrow> model \<noteq> [] \<Longrightarrow>
   net (length (requests st1)) model = Http status content \<Longrightarrow> http_ok status \<Longrightarrow>
     generateBlogArticle cfg tok net r st =
       (if truthy (map_option trim content) \<and> length (the (map_option trim content)) > 400
        then (map_option trim content, log_request model st1)
        else (None, log_request model st1))"
  by (simp add: generateBlogArticle.simps[of cfg tok net r st] Let_def)

lemma unmarked_mark:
  "unmarked cfg (mark_limited model st) = filter (\<lambda>m. m \<noteq> model) (unmarked cfg st)"
  unfolding unmarked_def mark_limited_def by (auto intro: filter_cong)

lemma unmarked_log [simp]: "unmarked cfg (log_request model st) = unmarked cfg st"
  by (simp add: unmarked_def log_request_def)

lemma gba_post_holds:
  "truthy tok \<Longrightarrow> gba_post cfg st (generateBlogArticle cfg tok net r st)"
proof (induction "length (unmarked cfg st)" arbitrary: st rule: less_induct)
  case less
  obtain mo st1 where g: "getNextModel cfg st = (mo, st1)" by (cases "getNextModel cfg st")
  show ?case
  proof (cases mo)
    case None
    with g getNextModel_None[of cfg st st1] have "st1 = st" by simp
    with None g less.prems show ?thesis
      by (simp add: gba_exhausted gba_post_def)
  next
    case (Some model)
    with g have g': "getNextModel cfg st = (Some model, st1)" by simp
    note gs = getNextModel_Some[OF g']
    have um: "unmarked cfg st1 = unmarked cfg st" by (simp add: unmarked_def gs(3))
    have mem: "model \<in> set (unmarked cfg st)" using gs(1,2) by (simp add: unmarked_def)
    have single: "gba_post cfg st (a, log_request model st1)"
      if "a = None \<or> (\<exists>s. a = Some s \<and> length s > 400)" for a
      using that mem gs(3,4) by (auto simp: gba_post_def log_request_def)
    show ?thesis
    proof (cases "model = []")
      case True
      with gba_unnamed[OF less.prems, of cfg st st1 net r] g' gs(3,4) show ?thesis
        by (simp add: gba_post_def)
    next
      case named: False
      show ?thesis
    proof (cases "net (length (requests st1)) model")
      case Throws
      with gba_throws[where net = net, OF less.prems g' named Throws] single show ?thesis by simp
    next
      case (Http status content)
      show ?thesis
      proof (cases "http_ok status")
        case True
        from gba_answered[where net = net, OF less.prems g' named Http True] single show ?thesis
          by (auto simp: truthy_def split: option.splits)
      next
        case False
        show ?thesis
        proof (cases "status = 429")
          case no: False
          from gba_failed[where net = net, OF less.prems g' named Http False no] single show ?thesis by simp
        next
          case True
          let ?st2 = "mark_limited model (log_request model st1)"
          have u2: "unmarked cfg ?st2 = filter (\<lambda>m. m \<noteq> model) (unmarked cfg st)"
            by (simp add: unmarked_mark um)
          have "length (unmarked cfg ?st2) < length (unmarked cfg st)"
            unfolding u2 using mem by (simp add: length_filter_less[where x = model])
          from less.hyps[OF this less.prems]
          have ih: "gba_post cfg ?st2 (generateBlogArticle cfg tok net r ?st2)" .
          have eq: "generateBlogArticle cfg tok net r st = generateBlogArticle cfg tok net r ?st2"
            using gba_rate_limited[where net = net, OF less.prems g' named] Http True by simp
          from ih obtain new where new: "requests (snd (generateBlogArticle cfg tok net r ?st2))
               = requests ?st2 @ new" "distinct new" "set new \<subseteq> set (unmarked cfg ?st2)"
            unfolding gba_post_def by blast
          have r2: "requests ?st2 = requests st @ [model]"
            by (simp add: mark_limited_def log_request_def gs(4))
          have "requests (snd (generateBlogArticle cfg tok net r ?st2)) = requests st @ (model # new)"
            using new(1) r2 by simp
          moreover have "distinct (model # new)" using new(2,3) u2 by auto
          moreover have "set (model # new) \<subseteq> set (unmarked cfg st)" using new(3) u2 mem by auto
          moreover have "\<forall>m. modelRateLimits st m \<longrightarrow> modelRateLimits (snd (generateBlogArticle cfg tok net r ?st2)) m"
            using ih gs(3) unfolding gba_post_def by (simp add: mark_limited_def log_request_def)
          moreover have "fst (generateBlogArticle cfg tok net r ?st2) = None \<or>
             (\<exists>a. fst (generateBlogArticle cfg tok net r ?st2) = Some a \<and> length a > 400)"
            using ih unfolding gba_post_def by blast
          ultimately show ?thesis unfolding eq gba_post_def by blast
        qed
      qed
    qed
    qed
  qed
qed

lemma unmarked_le: "length (unmarked cfg st) \<le> length (available cfg)"
  by (simp add: unmarked_def)

lemma gba_requests_new:
  "\<exists>new. requests (snd (generateBlogArticle cfg tok net r st)) = requests st @ new \<and>
      distinct new \<and> set new \<subseteq> set (unmarked cfg st)"
proof (cases "truthy tok")
  case False
  then show ?thesis by (simp add: gba_no_token)
next
  case True
  from gba_post_holds[OF True, of cfg st net r] show ?thesis
    unfolding gba_post_def by blast
qed

lemma gba_requests_bound:
  "length (requests (snd (generateBlogArticle cfg tok net r st)))
     \<le> length (requests st) + length (unmarked cfg st)"
proof (cases "truthy tok")
  case False
  then show ?thesis by (simp add: gba_no_token)
next
  case True
  from gba_post_holds[OF True, of cfg st net r] obtain new where
    new: "requests (snd (generateBlogArticle cfg tok net r st)) = requests st @ new"
      "distinct new" "set new \<subseteq> set (unmarked cfg st)"
    unfolding gba_post_def by blast
  have "length new = card (set new)" using new(2) by (simp add: distinct_card)
  also have "\<dots> \<le> card (set (unmarked cfg st))" using new(3) by (simp add: card_mono)
  also have "\<dots> \<le> length (unmarked cfg st)" by (rule card_length)
  finally show ?thesis using new(1) by simp
qed

section \<open>The fallback article fails the quality check\<close>

lemma long_tail_split:
  "fallback_long_tail lang =
     ([CHR 0x0A, CHR 0x0A] @ ''This '' @ lang @ '' project '') @
     ''caught my attention for its practical approach'' @
     '' to solving real developer problems. The codebase offers patterns worth studying for anyone working in this space.''"
  by (simp add: fallback_long_tail_def)

lemma short_tail_split:
  "fallback_short_tail lang =
     ('' is a '' @ lang @ '' project that '') @
     ''demonstrates thoughtful software design'' @
     (''. While exploring the codebase, I found patterns and implementations that could accelerate similar projects. Worth investigating if you''
      @ [CHR 0x27] @ ''re working with '' @ lang @
      '' or interested in clean, maintainable code architecture.'')"
  by (simp add: fallback_short_tail_def)

lemma bad_phrase_listed:
  assumes "p \<in> set badPhrases" and "a = x @ p @ y"
  shows "list_ex (\<lambda>phrase. includes_str (toLowerCase a) (toLowerCase phrase)) badPhrases"
proof -
  have "includes_str (toLowerCase a) (toLowerCase p)"
    unfolding assms(2) by (rule includes_lower_embedded)
  with assms(1) show ?thesis
    unfolding list_ex_iff by blast
qed

lemma fallback_long_form:
  assumes "length (js_or (description r) []) > 100"
  shows "generateFallbackSummary r =
     js_or (description r) [] @ fallback_long_tail (js_or (language r) ''various technologies'')"
  using assms by (simp add: generateFallbackSummary_def Let_def)

lemma fallback_short_form:
  assumes "\<not> length (js_or (description r) []) > 100"
  shows "generateFallbackSummary r =
     replace_char CHR ''_'' CHR '' '' (replace_char CHR ''-'' CHR '' '' (name r))
       @ fallback_short_tail (js_or (language r) ''various technologies'')"
  using assms by (simp add: generateFallbackSummary_def Let_def)

lemma fallback_has_bad_phrase:
  "list_ex (\<lambda>phrase. includes_str (toLowerCase (generateFallbackSummary r)) (toLowerCase phrase))
     badPhrases"
proof (cases "length (js_or (description r) []) > 100")
  case True
  have m: "''caught my attention for its practical approach'' \<in> set badPhrases"
    by (simp add: badPhrases_def)
  show ?thesis
    by (rule bad_phrase_listed[OF m, where x = "js_or (description r) [] @ [CHR 0x0A, CHR 0x0A]
          @ ''This '' @ js_or (language r) ''various technologies'' @ '' project ''"])
       (simp add: fallback_long_form[OF True] long_tail_split)
next
  case False
  have m: "''demonstrates thoughtful software design'' \<in> set badPhrases"
    by (simp add: badPhrases_def)
  show ?thesis
    by (rule bad_phrase_listed[OF m, where x = "replace_char CHR ''_'' CHR '' ''
          (replace_char CHR ''-'' CHR '' '' (name r)) @ '' is a ''
          @ js_or (language r) ''various technologies'' @ '' project that ''"])
       (simp add: fallback_short_form[OF False] short_tail_split)
qed

lemma fallback_is_fallback: "isFallbackArticle (Some (generateFallbackSummary r))"
  using fallback_has_bad_phrase[of r] by (simp add: isFallbackArticle_def)

lemma partition_singleton:
  "partition_repos ex [r] = (if needs_regen ex r then ([], [r]) else ([(r, the (ex (repo_id r)))], []))"
  by (simp add: partition_repos_def classify_step_def needs_regen_def split: option.splits)

text \<open>
  Claim C10.  For every repository record the article that the fallback generator of the
  incremental generator produces is classified by \<open>isFallbackArticle\<close> as needing
  regeneration: each of the two templates contains a phrase of the denylist.  So a
  repository whose stored entry carries a fallback article, whatever repository that
  article was written for, goes to the regeneration queue of the next run.
\<close>

theorem C10_fallback_articles_requeued:
  "isFallbackArticle (Some (generateFallbackSummary r)) \<and>
   list_ex (\<lambda>phrase. includes_str (toLowerCase (generateFallbackSummary r)) (toLowerCase phrase))
     badPhrases \<and>
   partition_repos (ex(repo_id q \<mapsto> e\<lparr>summary := Some (generateFallbackSummary r)\<rparr>)) [q]
     = ([], [q])"
proof -
  have a: "isFallbackArticle (Some (generateFallbackSummary r))"
    by (rule fallback_is_fallback)
  have b: "list_ex (\<lambda>phrase. includes_str (toLowerCase (generateFallbackSummary r))
             (toLowerCase phrase)) badPhrases"
    by (rule fallback_has_bad_phrase)
  have c: "partition_repos (ex(repo_id q \<mapsto> e\<lparr>summary := Some (generateFallbackSummary r)\<rparr>)) [q]
     = ([], [q])"
    by (simp add: partition_singleton needs_regen_def a)
  from a b c show ?thesis by blast
qed

section \<open>The partition of the repositories\<close>

lemma classify_step_eq:
  "classify_step ex r acc =
     (if needs_regen ex r then (fst acc, snd acc @ [r])
      else (fst acc @ [(r, the (ex (repo_id r)))], snd acc))"
  by (simp add: classify_step_def needs_regen_def split: option.splits)

lemma fold_classify:
  "fold (classify_step ex) rs acc =
     (fst acc @ map (\<lambda>r. (r, the (ex (repo_id r)))) (filter (\<lambda>r. \<not> needs_regen ex r) rs),
      snd acc @ filter (needs_regen ex) rs)"
proof (induction rs arbitrary: acc)
  case Nil
  show ?case by simp
next
  case (Cons r rs)
  have "fold (classify_step ex) (r # rs) acc = fold (classify_step ex) rs (classify_step ex r acc)"
    by simp
  also have "\<dots> =
     (fst (classify_step ex r acc)
        @ map (\<lambda>r. (r, the (ex (repo_id r)))) (filter (\<lambda>r. \<not> needs_regen ex r) rs),
      snd (classify_step ex r acc) @ filter (needs_regen ex) rs)"
    by (rule Cons.IH)
  also have "\<dots> =
     (fst acc @ map (\<lambda>r. (r, the (ex (repo_id r)))) (filter (\<lambda>r. \<not> needs_regen ex r) (r # rs)),
      snd acc @ filter (needs_regen ex) (r # rs))"
    by (simp add: classify_step_eq)
  finally show ?case .
qed

lemma partition_repos_eq:
  "partition_repos ex rs =
     (map (\<lambda>r. (r, the (ex (repo_id r)))) (filter (\<lambda>r. \<not> needs_regen ex r) rs),
      filter (needs_regen ex) rs)"
  by (simp add: partition_repos_def fold_classify)

lemma needs_regen_iff:
  "needs_regen ex r =
     (ex (repo_id r) = None \<or> (\<exists>e. ex (repo_id r) = Some e \<and> isFallbackArticle (summary e)))"
  by (simp add: needs_regen_def split: option.splits)

lemma hasArticle_set:
  "set (fst (partition_repos ex rs)) =
     {(r, e). r \<in> set rs \<and> ex (repo_id r) = Some e \<and> \<not> isFallbackArticle (summary e)}"
  by (auto simp: partition_repos_eq needs_regen_iff)

lemma acceptable_iff:
  "(\<not> isFallbackArticle article) =
     (\<exists>a. article = Some a \<and> 400 \<le> length a \<and>
        \<not> list_ex (\<lambda>phrase. includes_str (toLowerCase a) (toLowerCase phrase)) badPhrases)"
  by (cases article) (auto simp: isFallbackArticle_def)

lemma not_includes_replicate:
  "p \<noteq> [] \<Longrightarrow> hd p \<noteq> c \<Longrightarrow> \<not> includes_str (replicate n c) p"
  using includes_str_hd[of "replicate n c" p] by auto

lemma lower_replicate_z: "toLowerCase (replicate n CHR ''z'') = replicate n CHR ''z''"
  by (simp add: toLowerCase_def lower_char_def)

lemma z400_clean:
  "\<not> list_ex (\<lambda>phrase. includes_str (toLowerCase (replicate 400 CHR ''z'')) (toLowerCase phrase))
       badPhrases"
  unfolding lower_replicate_z badPhrases_def
  by (simp add: not_includes_replicate toLowerCase_def lower_char_def char_of_eq_iff)

lemma z400_acceptable: "\<not> isFallbackArticle (Some (replicate 400 CHR ''z''))"
  using z400_clean by (simp add: isFallbackArticle_def)

text \<open>
  Claim C3, as stated, fails: an article of exactly 400 characters without any denylist
  phrase does not exceed the threshold, yet \<open>isFallbackArticle\<close> rejects only lengths
  below 400 and so accepts it.
\<close>

theorem C3_counterexample:
  "acceptable_spec (Some (replicate 400 CHR ''z'')) \<noteq>
     (\<not> isFallbackArticle (Some (replicate 400 CHR ''z'')))"
  using z400_acceptable by (simp add: acceptable_spec_def)

text \<open>
  Claim C3, amended.  An existing article is acceptable exactly when it exists, its length
  is at least 400 and it contains no phrase of the denylist under case-insensitive
  substring matching.  The run partitions the selected repositories by this predicate, in
  order: a repository with no stored entry, or whose stored article is not acceptable, is
  placed in \<open>needsGeneration\<close>; every other one is carried forward with its stored entry.
\<close>

theorem C3_partition_by_quality:
  "(\<not> isFallbackArticle article) =
     (\<exists>a. article = Some a \<and> 400 \<le> length a \<and>
        \<not> list_ex (\<lambda>phrase. includes_str (toLowerCase a) (toLowerCase phrase)) badPhrases) \<and>
   needs_regen ex r =
     (ex (repo_id r) = None \<or> (\<exists>e. ex (repo_id r) = Some e \<and> isFallbackArticle (summary e))) \<and>
   snd (partition_repos ex rs) = filter (needs_regen ex) rs \<and>
   map fst (fst (partition_repos ex rs)) = filter (\<lambda>r. \<not> needs_regen ex r) rs \<and>
   set (fst (partition_repos ex rs)) =
     {(r, e). r \<in> set rs \<and> ex (repo_id r) = Some e \<and> \<not> isFallbackArticle (summary e)} \<and>
   needsGeneration_of cfg w repos =
     filter (needs_regen (loadExistingArticles (forks_json w))) (take (reposToShow cfg) repos) \<and>
   map fst (hasArticle_of cfg w repos) =
     filter (\<lambda>r. \<not> needs_regen (loadExistingArticles (forks_json w)) r)
       (take (reposToShow cfg) repos)"
proof -
  have 1: "map fst (fst (partition_repos ex rs)) = filter (\<lambda>r. \<not> needs_regen ex r) rs" for ex rs
    by (simp add: partition_repos_eq comp_def)
  have 2: "snd (partition_repos ex rs) = filter (needs_regen ex) rs" for ex rs
    by (simp add: partition_repos_eq)
  show ?thesis
    using acceptable_iff[of article] needs_regen_iff[of ex r] hasArticle_set[of ex rs]
      1[of ex rs] 2[of ex rs]
      1[of "loadExistingArticles (forks_json w)" "take (reposToShow cfg) repos"]
      2[of "loadExistingArticles (forks_json w)" "take (reposToShow cfg) repos"]
    unfolding needsGeneration_of_def hasArticle_of_def by blast
qed

section \<open>The batch loop\<close>

lemma try_generate_forks: "acc_forks (snd (try_generate cfg tok w d ls)) = acc_forks ls"
  by (simp add: try_generate_def Let_def split: prod.splits)

lemma try_generate_calls:
  "aiCallCount (snd (try_generate cfg tok w d ls)) \<le> aiCallCount ls + 1"
  by (simp add: try_generate_def Let_def split: prod.splits)

lemma process_batch_forks:
  "\<exists>generated. acc_forks (process_batch cfg tok w i rs ls) = acc_forks ls @ generated \<and>
      map f_id generated = map repo_id rs"
proof (induction rs arbitrary: i ls)
  case Nil
  show ?case by simp
next
  case (Cons r rs)
  let ?d = "fetchRepoDetails w r"
  let ?res = "try_generate cfg tok w ?d ls"
  let ?a = "new_article i r ?d (js_or (fst ?res) (generateFallbackSummary r))"
  let ?ls = "(snd ?res)\<lparr>acc_forks := acc_forks (snd ?res) @ [?a]\<rparr>"
  from Cons.IH[of "i + 1" ?ls] obtain gs where
    gs: "acc_forks (process_batch cfg tok w (i + 1) rs ?ls) = acc_forks ?ls @ gs"
      "map f_id gs = map repo_id rs" by blast
  have "acc_forks (process_batch cfg tok w i (r # rs) ls) = acc_forks ls @ (?a # gs)"
    using gs(1) by (simp add: Let_def try_generate_forks)
  moreover have "map f_id (?a # gs) = map repo_id (r # rs)"
    using gs(2) by (simp add: new_article_def)
  ultimately show ?case by blast
qed

lemma process_batch_calls:
  "aiCallCount (process_batch cfg tok w i rs ls) \<le> aiCallCount ls + length rs"
proof (induction rs arbitrary: i ls)
  case Nil
  show ?case by simp
next
  case (Cons r rs)
  let ?d = "fetchRepoDetails w r"
  let ?res = "try_generate cfg tok w ?d ls"
  let ?a = "new_article i r ?d (js_or (fst ?res) (generateFallbackSummary r))"
  let ?ls = "(snd ?res)\<lparr>acc_forks := acc_forks (snd ?res) @ [?a]\<rparr>"
  have "aiCallCount (process_batch cfg tok w i (r # rs) ls)
          = aiCallCount (process_batch cfg tok w (i + 1) rs ?ls)"
    by (simp add: Let_def)
  also have "\<dots> \<le> aiCallCount ?ls + length rs" by (rule Cons.IH)
  also have "\<dots> \<le> aiCallCount ls + length (r # rs)"
    using try_generate_calls[of cfg tok w ?d ls] by simp
  finally show ?case .
qed

lemma run_loops_forks:
  "\<exists>generated. acc_forks (run_loops cfg tok w repos)
       = preserved_of cfg w repos @ generated \<and>
     map f_id generated = map repo_id (batchToProcess_of cfg w repos)"
  using process_batch_forks[of cfg tok w 0 "batchToProcess_of cfg w repos"
      "initial_loop_state (preserved_of cfg w repos)"]
  unfolding run_loops_def by (simp add: initial_loop_state_def)

lemma batch_le: "length (batchToProcess_of cfg w repos) \<le> batchSize cfg"
  by (simp add: batchToProcess_of_def)

lemma build_output_total:
  "totalRepos (build_output cfg tok w repos)
     = length (preserved_of cfg w repos) + length (batchToProcess_of cfg w repos)"
proof -
  from run_loops_forks[of cfg tok w repos] obtain gs where
    gs: "acc_forks (run_loops cfg tok w repos)
           = preserved_of cfg w repos @ gs"
        "map f_id gs = map repo_id (batchToProcess_of cfg w repos)" by blast
  from gs(2) have "length gs = length (batchToProcess_of cfg w repos)"
    by (metis length_map)
  then show ?thesis
    by (simp add: build_output_def Let_def gs(1))
qed

lemma build_output_pending:
  "pending (progress (build_output cfg tok w repos))
     = length (needsGeneration_of cfg w repos) - length (batchToProcess_of cfg w repos)"
  by (simp add: build_output_def Let_def)

lemma build_output_forks:
  "forks (build_output cfg tok w repos)
     = sort_key (\<lambda>f. - updatedAt f) (acc_forks (run_loops cfg tok w repos))"
  by (simp add: build_output_def Let_def)

text \<open>
  Claim C2.  Whatever the repository list and the stored feed, the batch of a run holds at
  most \<open>batchSize\<close> repositories: it is the front of the regeneration queue, the rest of
  the queue stays out of it, the batch loop adds one entry per repository of the batch
  and nothing else to the preserved entries, and it calls the generator at most
  \<open>batchSize\<close> times.
\<close>

theorem C2_batch_cap:
  "length (batchToProcess_of cfg w repos) \<le> batchSize cfg \<and>
   batchToProcess_of cfg w repos @ drop (batchSize cfg) (needsGeneration_of cfg w repos)
     = needsGeneration_of cfg w repos \<and>
   (\<exists>generated.
      acc_forks (run_loops cfg tok w repos)
        = preserved_of cfg w repos @ generated \<and>
      map f_id generated = map repo_id (batchToProcess_of cfg w repos) \<and>
      length generated \<le> batchSize cfg) \<and>
   aiCallCount (run_loops cfg tok w repos) \<le> batchSize cfg \<and>
   totalRepos (build_output cfg tok w repos)
     \<le> length (hasArticle_of cfg w repos) + batchSize cfg \<and>
   length (batchToProcess_of CONFIG w repos) \<le> 50"
proof -
  have a: "length (batchToProcess_of cfg w repos) \<le> batchSize cfg" by (rule batch_le)
  have b: "batchToProcess_of cfg w repos @ drop (batchSize cfg) (needsGeneration_of cfg w repos)
     = needsGeneration_of cfg w repos"
    by (simp add: batchToProcess_of_def)
  from run_loops_forks[of cfg tok w repos] obtain gs where
    gs: "acc_forks (run_loops cfg tok w repos)
           = preserved_of cfg w repos @ gs"
        "map f_id gs = map repo_id (batchToProcess_of cfg w repos)" by blast
  from gs(2) have "length gs = length (batchToProcess_of cfg w repos)"
    by (metis length_map)
  with a have c: "length gs \<le> batchSize cfg" by simp
  have d: "aiCallCount (run_loops cfg tok w repos) \<le> batchSize cfg"
    using process_batch_calls[of cfg tok w 0 "batchToProcess_of cfg w repos"
        "initial_loop_state (preserved_of cfg w repos)"] a
    unfolding run_loops_def by (simp add: initial_loop_state_def)
  have e: "totalRepos (build_output cfg tok w repos)
     \<le> length (hasArticle_of cfg w repos) + batchSize cfg"
    using a by (simp add: build_output_total preserved_of_def)
  have f: "length (batchToProcess_of CONFIG w repos) \<le> 50"
    using batch_le[of CONFIG w repos] by (simp add: CONFIG_def)
  from a b gs c d e f show ?thesis by blast
qed
section \<open>Listing the repositories\<close>

lemma fetchPages_paged:
  "fetchPages (paged_api srv) (Suc p) (take (100 * p) srv) = Some (Inr srv)"
proof (induction "length srv - 100 * p" arbitrary: p rule: less_induct)
  case less
  let ?page = "take 100 (drop (100 * p) srv)"
  show ?case
  proof (cases "?page = []")
    case True
    then have "length srv \<le> 100 * p" by simp
    then have "take (100 * p) srv = srv" by simp
    with True show ?thesis
      by (subst fetchPages.simps) (simp add: paged_api_def http_ok_def)
  next
    case False
    then have lt: "100 * p < length srv" by simp
    show ?thesis
    proof (cases "length ?page < 100")
      case True
      then have short: "length srv - 100 * p < 100" by simp
      then have "take (100 * p) srv @ ?page = srv"
        by (metis append_take_drop_id drop_all le_add_diff_inverse length_drop less_imp_le_nat nat_le_linear take_all)
      with short False show ?thesis
        by (subst fetchPages.simps) (simp add: paged_api_def http_ok_def)
    next
      case ge: False
      have app: "take (100 * p) srv @ ?page = take (100 * Suc p) srv"
        by (simp add: take_add[symmetric] add.commute)
      have "length srv - 100 * Suc p < length srv - 100 * p" using lt by simp
      from less[OF this] have "fetchPages (paged_api srv) (Suc (Suc p)) (take (100 * Suc p) srv) = Some (Inr srv)" .
      with ge False app show ?thesis
        by (subst fetchPages.simps) (simp add: paged_api_def http_ok_def)
    qed
  qed
qed

lemma fetchRepos_paged: "fetchRepos (paged_api srv) = Some (Inr (select_repos srv))"
  using fetchPages_paged[of srv 0] by (simp add: fetchRepos_def)


lemma starts_with_iff: "starts_with s p = (\<exists>b. s = p @ b)"
  by (induction s p rule: starts_with.induct) auto

lemma includes_str_iff: "includes_str s p = (\<exists>a b. s = a @ p @ b)"
proof
  assume "includes_str s p"
  then show "\<exists>a b. s = a @ p @ b"
  proof (induction s)
    case Nil
    then show ?case by simp
  next
    case (Cons c cs)
    from Cons.prems consider "starts_with (c # cs) p" | "includes_str cs p" by auto
    then show ?case
    proof cases
      case 1
      then obtain b where "c # cs = p @ b" unfolding starts_with_iff by blast
      then have "c # cs = [] @ p @ b" by simp
      then show ?thesis by blast
    next
      case 2
      with Cons.IH obtain a b where "cs = a @ p @ b" by blast
      then have "c # cs = (c # a) @ p @ b" by simp
      then show ?thesis by blast
    qed
  qed
next
  assume "\<exists>a b. s = a @ p @ b"
  then show "includes_str s p" by (auto simp: includes_str_append)
qed

lemma select_repos_mset:
  "mset (select_repos srv) =
     mset (map tag_repo (filter (\<lambda>r. \<not> archived r \<and> \<not> includes_str (name r) ''.github.io'') srv))"
proof -
  have "filter (\<lambda>r. \<not> includes_str (name r) ''.github.io'' \<and> \<not> archived r) (map tag_repo srv)
      = map tag_repo (filter (\<lambda>r. \<not> archived r \<and> \<not> includes_str (name r) ''.github.io'') srv)"
    by (induction srv) (auto simp: tag_repo_def)
  then show ?thesis by (simp add: select_repos_def)
qed

lemma select_repos_sorted:
  "sorted_wrt (\<lambda>a b. updated_at b \<le> updated_at a) (select_repos srv)"
proof -
  have "sorted (map (\<lambda>r. - updated_at r) (select_repos srv))"
    unfolding select_repos_def by (rule sorted_sort_key)
  then show ?thesis by (simp add: sorted_map)
qed

lemma select_repos_stable:
  "filter (\<lambda>r. updated_at r = t) (select_repos srv) =
     filter (\<lambda>r. updated_at r = t)
       (map tag_repo (filter (\<lambda>r. \<not> archived r \<and> \<not> includes_str (name r) ''.github.io'') srv))"
proof -
  have f: "filter (\<lambda>r. \<not> includes_str (name r) ''.github.io'' \<and> \<not> archived r) (map tag_repo srv)
      = map tag_repo (filter (\<lambda>r. \<not> archived r \<and> \<not> includes_str (name r) ''.github.io'') srv)"
    by (induction srv) (auto simp: tag_repo_def)
  have "filter (\<lambda>r. - updated_at r = - t) (select_repos srv)
      = filter (\<lambda>r. - updated_at r = - t)
          (filter (\<lambda>r. \<not> includes_str (name r) ''.github.io'' \<and> \<not> archived r) (map tag_repo srv))"
    unfolding select_repos_def by (rule sort_key_stable)
  then show ?thesis by (simp add: f)
qed

lemma fetchRepos_v1_ok:
  "fetchRepos_v1 (Page 200 repos) = Inr (select_repos repos)"
  by (simp add: fetchRepos_v1_def select_repos_def http_ok_def conj_commute)

text \<open>
  Claim C8.  For every list of repositories that the hosting API serves, \<open>fetchRepos\<close>
  returns, and returns exactly the repositories that are not archived and whose name does
  not contain \<open>.github.io\<close>, each tagged \<open>fork\<close> or \<open>original\<close> after its fork flag,
  sorted by last update, latest first.  The first version of the script, which reads one
  page, does the same with that page.
\<close>

theorem C8_fetchRepos_filters_tags_sorts:
  "fetchRepos (paged_api srv) = Some (Inr (select_repos srv)) \<and>
   mset (select_repos srv) =
     mset (map (\<lambda>r. r\<lparr>rtype := Some (if fork r then ''fork'' else ''original'')\<rparr>)
       (filter (\<lambda>r. \<not> archived r \<and> \<not> (\<exists>a b. name r = a @ ''.github.io'' @ b)) srv)) \<and>
   sorted_wrt (\<lambda>a b. updated_at b \<le> updated_at a) (select_repos srv) \<and>
   fetchRepos_v1 (paged_api srv 1) = Inr (select_repos (take 100 srv))"
proof -
  have "tag_repo = (\<lambda>r. r\<lparr>rtype := Some (if fork r then ''fork'' else ''original'')\<rparr>)"
    by (rule ext) (simp add: tag_repo_def)
  then show ?thesis
    using fetchRepos_paged[of srv] select_repos_mset[of srv] select_repos_sorted[of srv]
      fetchRepos_v1_ok[of "take 100 srv"]
    by (simp add: includes_str_iff paged_api_def)
qed

section \<open>The outcome of a run\<close>

lemma main_cases:
  "main cfg tok w =
     (case fetchRepos (github w) of
        None \<Rightarrow> None
      | Some (Inl e) \<Rightarrow>
          Some \<lparr>exit_code = 1, stderr = [e], disk = forks_json w, writes = [], sent = [],
                trace = [LoadFile, ListRepos, PrintError e, ExitProcess 1]\<rparr>
      | Some (Inr repos) \<Rightarrow>
           Some \<lparr>exit_code = 0, stderr = [], disk = Stored (build_output cfg tok w repos),
                 writes = [build_output cfg tok w repos],
                 sent = requests (gen (run_loops cfg tok w repos)),
                 trace = [LoadFile, ListRepos]
                           @ map Complete (requests (gen (run_loops cfg tok w repos)))
                           @ [WriteFile (build_output cfg tok w repos), ExitProcess 0]\<rparr>)"
  by (simp add: main_def Let_def split: option.splits sum.splits)

section \<open>Runs that produce fallback articles only\<close>


lemma fallback_details: "generateFallbackSummary (fetchRepoDetails w r) = generateFallbackSummary r"
  by (simp add: fetchRepoDetails_def generateFallbackSummary_def Let_def split: option.splits)

lemma fallback_nonempty: "generateFallbackSummary r \<noteq> []"
  by (simp add: generateFallbackSummary_def Let_def fallback_long_tail_def fallback_short_tail_def)

lemma gba_unreachable:
  assumes "truthy tok" and "\<forall>n model. net n model = Throws"
  shows "fst (generateBlogArticle cfg tok net r st) = None"
proof -
  obtain mo st1 where g: "getNextModel cfg st = (mo, st1)" by (cases "getNextModel cfg st")
  show ?thesis
  proof (cases mo)
    case None
    with g assms(1) show ?thesis by (simp add: gba_exhausted)
  next
    case (Some model)
    with g have g': "getNextModel cfg st = (Some model, st1)" by simp
    show ?thesis
    proof (cases "model = []")
      case True
      with gba_unnamed[OF assms(1), of cfg st st1 net r] g' show ?thesis by simp
    next
      case False
      from gba_throws[where net = net, OF assms(1) g' False] assms(2) show ?thesis by simp
    qed
  qed
qed

lemma try_generate_fst:
  "\<not> rateLimitHit ls \<Longrightarrow>
     fst (try_generate cfg tok w d ls) = fst (generateBlogArticle cfg tok (completion w) d (gen ls))"
  by (cases "generateBlogArticle cfg tok (completion w) d (gen ls)")
     (simp add: try_generate_def Let_def)

lemma try_generate_fallback:
  assumes "\<not> truthy tok \<or> unreachable w"
  shows "js_or (fst (try_generate cfg tok w (fetchRepoDetails w r) ls)) (generateFallbackSummary r)
           = generateFallbackSummary r"
proof (cases "rateLimitHit ls")
  case True
  then show ?thesis by (simp add: try_generate_def js_or_def)
next
  case False
  show ?thesis
  proof (cases "truthy tok")
    case no: False
    have "fst (try_generate cfg tok w (fetchRepoDetails w r) ls) = Some (generateFallbackSummary r)"
      using False no
      by (simp add: try_generate_def gba_no_token fallback_details truthy_def fallback_nonempty)
    then show ?thesis by (simp add: js_or_def)
  next
    case True
    with assms have "\<forall>n model. completion w n model = Throws" by (simp add: unreachable_def)
    from gba_unreachable[OF True this]
    have "fst (generateBlogArticle cfg tok (completion w) (fetchRepoDetails w r) (gen ls)) = None" .
    then have "fst (try_generate cfg tok w (fetchRepoDetails w r) ls) = None"
      using False by (simp add: try_generate_fst)
    then show ?thesis by (simp add: js_or_def)
  qed
qed

lemma process_batch_fallback:
  assumes "\<not> truthy tok \<or> unreachable w"
  shows "acc_forks (process_batch cfg tok w i rs ls) = acc_forks ls @ fallback_entries w i rs"
proof (induction rs arbitrary: i ls)
  case Nil
  show ?case by simp
next
  case (Cons r rs)
  let ?d = "fetchRepoDetails w r"
  let ?res = "try_generate cfg tok w ?d ls"
  let ?a = "new_article i r ?d (generateFallbackSummary r)"
  let ?ls = "(snd ?res)\<lparr>acc_forks := acc_forks (snd ?res) @ [?a]\<rparr>"
  have "process_batch cfg tok w i (r # rs) ls = process_batch cfg tok w (i + 1) rs ?ls"
    by (simp add: Let_def try_generate_fallback[OF assms])
  then show ?case
    by (simp add: Cons.IH try_generate_forks del: process_batch.simps)
qed

lemma try_generate_no_token:
  "\<not> truthy tok \<Longrightarrow> requests (gen (snd (try_generate cfg tok w d ls))) = requests (gen ls)"
  by (simp add: try_generate_def gba_no_token truthy_def fallback_nonempty)

lemma process_batch_no_token:
  assumes "\<not> truthy tok"
  shows "requests (gen (process_batch cfg tok w i rs ls)) = requests (gen ls)"
proof (induction rs arbitrary: i ls)
  case Nil
  show ?case by simp
next
  case (Cons r rs)
  show ?case by (simp add: Let_def Cons.IH try_generate_no_token[OF assms])
qed

lemma run_loops_fallback:
  assumes "\<not> truthy tok \<or> unreachable w"
  shows "acc_forks (run_loops cfg tok w repos)
           = preserved_of cfg w repos @ fallback_entries w 0 (batchToProcess_of cfg w repos)"
  unfolding run_loops_def
  by (simp add: process_batch_fallback[OF assms] initial_loop_state_def)

lemma run_loops_no_requests:
  assumes "\<not> truthy tok"
  shows "requests (gen (run_loops cfg tok w repos)) = []"
  unfolding run_loops_def
  by (simp add: process_batch_no_token[OF assms] initial_loop_state_def initial_gen_state_def)

lemma fallback_entries_summary:
  "map summary (fallback_entries w i rs) = map (\<lambda>r. Some (generateFallbackSummary r)) rs"
  by (induction rs arbitrary: i) (simp_all add: new_article_def)

lemma fallback_entries_ids:
  "map f_id (fallback_entries w i rs) = map repo_id rs"
  by (induction rs arbitrary: i) (simp_all add: new_article_def)

lemma v1_no_token:
  "\<not> truthy tok \<Longrightarrow> generateBlogSummary_v1 tok resp rnd r = (generateFallbackSummary_v1 rnd r, 0)"
  by (simp add: generateBlogSummary_v1_def)

section \<open>Rate limits and model rotation\<close>

lemma sample_next_model:
  "getNextModel CONFIG initial_gen_state =
     (Some ''gpt-4o'', initial_gen_state\<lparr>currentModelIndex := 1\<rparr>)"
  by (simp add: getNextModel_def getNextModel_from.simps CONFIG_def initial_gen_state_def)





text \<open>
  Claim C7.  One top-level call of \<open>generateBlogArticle\<close> sends its completion requests
  to distinct models that were unmarked when it started, so it sends at most as many as
  there are such models, hence at most as many as the model list is long; every recursive
  call follows one of these requests, so the recursion is no deeper.  A recursive step marks the model that \<open>getNextModel\<close> returned,
  which was unmarked, so the number of unmarked models falls with each step, and
  \<open>getNextModel\<close> returns no model exactly when none is unmarked.  The function is total:
  its termination is proved above with this measure.
\<close>

theorem C7_retry_recursion_bounded:
  "(\<exists>new. requests (snd (generateBlogArticle cfg tok net r st)) = requests st @ new \<and>
      distinct new \<and> set new \<subseteq> set (unmarked cfg st)) \<and>
   length (requests (snd (generateBlogArticle cfg tok net r st)))
     \<le> length (requests st) + length (unmarked cfg st) \<and>
   length (unmarked cfg st) \<le> length (available cfg) \<and>
   (fst (getNextModel cfg st) = None) = (unmarked cfg st = []) \<and>
   (\<forall>model st1 content.
      truthy tok \<and> getNextModel cfg st = (Some model, st1) \<and> model \<noteq> [] \<and>
      net (length (requests st1)) model = Http 429 content \<longrightarrow>
        generateBlogArticle cfg tok net r st =
          generateBlogArticle cfg tok net r (mark_limited model (log_request model st1)) \<and>
        model \<in> set (unmarked cfg st) \<and>
        model \<notin> set (unmarked cfg (mark_limited model (log_request model st1))) \<and>
        length (unmarked cfg (mark_limited model (log_request model st1))) < length (unmarked cfg st))"
proof (intro conjI allI impI)
  show "\<exists>new. requests (snd (generateBlogArticle cfg tok net r st)) = requests st @ new \<and>
      distinct new \<and> set new \<subseteq> set (unmarked cfg st)" by (rule gba_requests_new)
  show "length (requests (snd (generateBlogArticle cfg tok net r st)))
     \<le> length (requests st) + length (unmarked cfg st)" by (rule gba_requests_bound)
  show "length (unmarked cfg st) \<le> length (available cfg)" by (rule unmarked_le)
  show "(fst (getNextModel cfg st) = None) = (unmarked cfg st = [])"
    by (simp add: getNextModel_None_iff unmarked_def filter_empty_conv)
next
  fix model st1 content
  assume h: "truthy tok \<and> getNextModel cfg st = (Some model, st1) \<and> model \<noteq> [] \<and>
      net (length (requests st1)) model = Http 429 content"
  then have g: "getNextModel cfg st = (Some model, st1)" by simp
  note gs = getNextModel_Some[OF g]
  show "generateBlogArticle cfg tok net r st =
          generateBlogArticle cfg tok net r (mark_limited model (log_request model st1))"
    using gba_rate_limited[where net = net] h by blast
  show "model \<in> set (unmarked cfg st)" using gs(1,2) by (simp add: unmarked_def)
  show "model \<notin> set (unmarked cfg (mark_limited model (log_request model st1)))"
    by (simp add: unmarked_mark)
  have "modelRateLimits (log_request model st1) = modelRateLimits st"
    using gs(3) by (simp add: log_request_def)
  from unmarked_mark_less[OF gs(1,2) this]
  show "length (unmarked cfg (mark_limited model (log_request model st1))) < length (unmarked cfg st)" .
qed


theorem C7_retry_recursion_bounded_witness:
  "truthy (Some ''t'') \<and>
   getNextModel CONFIG initial_gen_state
     = (Some ''gpt-4o'', initial_gen_state\<lparr>currentModelIndex := 1\<rparr>) \<and>
   rate_limited_net (length (requests (initial_gen_state\<lparr>currentModelIndex := 1\<rparr>))) ''gpt-4o''
     = Http 429 None \<and>
   length (unmarked CONFIG
      (mark_limited ''gpt-4o'' (log_request ''gpt-4o'' (initial_gen_state\<lparr>currentModelIndex := 1\<rparr>))))
     < length (unmarked CONFIG initial_gen_state) \<and>
   length (requests (snd (generateBlogArticle CONFIG (Some ''t'') rate_limited_net (sample_repo 0)
       initial_gen_state)))
     \<le> length (requests initial_gen_state) + length (unmarked CONFIG initial_gen_state) \<and>
   length (unmarked CONFIG initial_gen_state) \<le> length (available CONFIG)"
proof -
  let ?st1 = "initial_gen_state\<lparr>currentModelIndex := 1\<rparr>"
  have t: "truthy (Some ''t'')" by (simp add: truthy_def)
  have n: "rate_limited_net (length (requests ?st1)) ''gpt-4o'' = Http 429 None"
    by (simp add: rate_limited_net_def)
  have ne: "''gpt-4o'' \<noteq> []" by simp
  note c7 = C7_retry_recursion_bounded[of CONFIG "Some ''t''" rate_limited_net "sample_repo 0" initial_gen_state]
  from c7 have "\<forall>model st1 content.
      truthy (Some ''t'') \<and> getNextModel CONFIG initial_gen_state = (Some model, st1) \<and>
      model \<noteq> [] \<and> rate_limited_net (length (requests st1)) model = Http 429 content \<longrightarrow>
        generateBlogArticle CONFIG (Some ''t'') rate_limited_net (sample_repo 0) initial_gen_state =
          generateBlogArticle CONFIG (Some ''t'') rate_limited_net (sample_repo 0)
            (mark_limited model (log_request model st1)) \<and>
        model \<in> set (unmarked CONFIG initial_gen_state) \<and>
        model \<notin> set (unmarked CONFIG (mark_limited model (log_request model st1))) \<and>
        length (unmarked CONFIG (mark_limited model (log_request model st1)))
          < length (unmarked CONFIG initial_gen_state)"
    by blast
  from this[rule_format, of "''gpt-4o''" ?st1 None] t sample_next_model n ne
  have "length (unmarked CONFIG (mark_limited ''gpt-4o'' (log_request ''gpt-4o'' ?st1)))
     < length (unmarked CONFIG initial_gen_state)" by blast
  with t sample_next_model n c7 show ?thesis by blast
qed

section \<open>What a run keeps and what it queues again\<close>

lemma fold_existing_Some:
  "fold (\<lambda>fk existing. existing(f_id fk \<mapsto> fk)) fs m0 k = Some e \<Longrightarrow>
     (e \<in> set fs \<and> f_id e = k) \<or> m0 k = Some e"
proof (induction fs arbitrary: m0)
  case Nil
  then show ?case by simp
next
  case (Cons f fs)
  from Cons.IH[of "m0(f_id f \<mapsto> f)"] Cons.prems
  have "(e \<in> set fs \<and> f_id e = k) \<or> (m0(f_id f \<mapsto> f)) k = Some e" by simp
  then show ?case by (auto split: if_splits)
qed

lemma fold_existing_dom:
  "(\<exists>e \<in> set fs. f_id e = k) \<or> m0 k \<noteq> None \<Longrightarrow>
     fold (\<lambda>fk existing. existing(f_id fk \<mapsto> fk)) fs m0 k \<noteq> None"
proof (induction fs arbitrary: m0)
  case Nil
  then show ?case by simp
next
  case (Cons f fs)
  have "(\<exists>e \<in> set fs. f_id e = k) \<or> (m0(f_id f \<mapsto> f)) k \<noteq> None"
    using Cons.prems by auto
  from Cons.IH[of "m0(f_id f \<mapsto> f)", OF this] show ?case by simp
qed

lemma existing_Some:
  "loadExistingArticles fl k = Some e \<Longrightarrow> f_id e = k \<and> (\<exists>d. fl = Stored d \<and> e \<in> set (forks d))"
  using fold_existing_Some[of _ Map.empty k e]
  by (cases fl) (auto simp: loadExistingArticles_def)

lemma existing_stored_dom:
  "e \<in> set (forks d) \<Longrightarrow> loadExistingArticles (Stored d) (f_id e) \<noteq> None"
  using fold_existing_dom[of "forks d" "f_id e" Map.empty]
  by (auto simp: loadExistingArticles_def)

lemma preserve_keeps:
  "f_id (preserve w r e) = f_id e" "summary (preserve w r e) = summary e"
  "f_name (preserve w r e) = f_name e" "displayName (preserve w r e) = displayName e"
  "f_url (preserve w r e) = f_url e" "image (preserve w r e) = image e"
  "forkedAt (preserve w r e) = forkedAt e" "readTime (preserve w r e) = readTime e"
  by (simp_all add: preserve_def Let_def)

lemma needs_regen_id: "repo_id r = repo_id q \<Longrightarrow> needs_regen ex r = needs_regen ex q"
  by (simp add: needs_regen_def)

lemma hasArticle_of_set:
  "set (hasArticle_of cfg w repos) =
     {(r, e). r \<in> set (take (reposToShow cfg) repos) \<and>
        loadExistingArticles (forks_json w) (repo_id r) = Some e \<and> \<not> isFallbackArticle (summary e)}"
  unfolding hasArticle_of_def by (rule hasArticle_set)

lemma needsGeneration_of_eq:
  "needsGeneration_of cfg w repos =
     filter (needs_regen (loadExistingArticles (forks_json w))) (take (reposToShow cfg) repos)"
  by (simp add: needsGeneration_of_def partition_repos_eq)

lemma batch_needs:
  "q \<in> set (batchToProcess_of cfg w repos) \<Longrightarrow>
     q \<in> set (take (reposToShow cfg) repos) \<and> needs_regen (loadExistingArticles (forks_json w)) q"
  unfolding batchToProcess_of_def needsGeneration_of_eq
  by (auto dest: in_set_takeD)

text \<open>Where the entries of the written document come from.\<close>

lemma output_entry_origin:
  assumes "f \<in> set (forks (build_output cfg tok w repos))"
  shows "(\<exists>q e. q \<in> set (take (reposToShow cfg) repos) \<and>
            loadExistingArticles (forks_json w) (repo_id q) = Some e \<and>
            \<not> isFallbackArticle (summary e) \<and> f = preserve w q e)
       \<or> (\<exists>q \<in> set (batchToProcess_of cfg w repos). f_id f = repo_id q \<and>
            ((\<not> truthy tok \<or> unreachable w) \<longrightarrow> summary f = Some (generateFallbackSummary q)))"
proof -
  from run_loops_forks[of cfg tok w repos] obtain gs where
    gs: "acc_forks (run_loops cfg tok w repos) = preserved_of cfg w repos @ gs"
        "map f_id gs = map repo_id (batchToProcess_of cfg w repos)" by blast
  from assms have "f \<in> set (preserved_of cfg w repos) \<or> f \<in> set gs"
    by (simp add: build_output_forks gs(1))
  then show ?thesis
  proof
    assume "f \<in> set (preserved_of cfg w repos)"
    then obtain q e where "(q, e) \<in> set (hasArticle_of cfg w repos)" "f = preserve w q e"
      by (auto simp: preserved_of_def)
    then show ?thesis unfolding hasArticle_of_set by blast
  next
    assume fg: "f \<in> set gs"
    then obtain n where n: "n < length gs" "gs ! n = f" by (auto simp: in_set_conv_nth)
    let ?b = "batchToProcess_of cfg w repos"
    from gs(2) have len: "length gs = length ?b" by (metis length_map)
    from gs(2) n len have id: "f_id f = repo_id (?b ! n)"
      by (metis nth_map)
    have mem: "?b ! n \<in> set ?b" using n(1) len by simp
    have "summary f = Some (generateFallbackSummary (?b ! n))" if fb: "\<not> truthy tok \<or> unreachable w"
    proof -
      from run_loops_fallback[OF fb, of cfg repos] gs(1)
      have "gs = fallback_entries w 0 ?b" by simp
      then have "map summary gs = map (\<lambda>r. Some (generateFallbackSummary r)) ?b"
        by (simp add: fallback_entries_summary)
      then have "summary (gs ! n) = Some (generateFallbackSummary (?b ! n))"
        using n(1) len by (metis nth_map)
      with n(2) show ?thesis by simp
    qed
    with id mem show ?thesis by blast
  qed
qed

lemma preserved_in_output:
  assumes "q \<in> set (take (reposToShow cfg) repos)"
    and "loadExistingArticles (forks_json w) (repo_id q) = Some e"
    and "\<not> isFallbackArticle (summary e)"
  shows "preserve w q e \<in> set (forks (build_output cfg tok w repos))"
proof -
  from assms have "(q, e) \<in> set (hasArticle_of cfg w repos)" unfolding hasArticle_of_set by simp
  then have "preserve w q e \<in> set (preserved_of cfg w repos)"
    by (force simp: preserved_of_def)
  moreover from run_loops_forks[of cfg tok w repos] obtain gs where
    "acc_forks (run_loops cfg tok w repos) = preserved_of cfg w repos @ gs" by blast
  ultimately show ?thesis by (simp add: build_output_forks)
qed

lemma kept_article_unchanged:
  assumes q: "q \<in> set (take (reposToShow cfg) repos)"
    and e: "loadExistingArticles (forks_json w) (repo_id q) = Some e"
    and ok: "\<not> isFallbackArticle (summary e)"
    and f: "f \<in> set (forks (build_output cfg tok w repos))" "f_id f = repo_id q"
  shows "summary f = summary e"
proof -
  let ?ex = "loadExistingArticles (forks_json w)"
  have nq: "\<not> needs_regen ?ex q" using e ok by (simp add: needs_regen_def)
  from output_entry_origin[OF f(1)] show ?thesis
  proof (elim disjE exE conjE bexE)
    fix q' e'
    assume a: "?ex (repo_id q') = Some e'" "f = preserve w q' e'"
    from existing_Some[OF a(1)] have "f_id e' = repo_id q'" by simp
    with a(2) f(2) have "repo_id q' = repo_id q" by (simp add: preserve_keeps)
    with a(1) e have "e' = e" by simp
    with a(2) show ?thesis by (simp add: preserve_keeps)
  next
    fix q'
    assume a: "q' \<in> set (batchToProcess_of cfg w repos)" "f_id f = repo_id q'"
    from batch_needs[OF a(1)] have "needs_regen ?ex q'" by simp
    moreover from a(2) f(2) have "repo_id q' = repo_id q" by simp
    ultimately show ?thesis using nq needs_regen_id[of q' q ?ex] by simp
  qed
qed

text \<open>After a run that produced fallback articles only, the queue is what it was.\<close>

lemma requeue_same:
  assumes fb: "\<not> truthy tok \<or> unreachable w"
    and q: "q \<in> set (take (reposToShow cfg) repos)"
  shows "needs_regen (loadExistingArticles (Stored (build_output cfg tok w repos))) q
       = needs_regen (loadExistingArticles (forks_json w)) q"
proof -
  let ?ex = "loadExistingArticles (forks_json w)"
  let ?doc = "build_output cfg tok w repos"
  let ?ex2 = "loadExistingArticles (Stored ?doc)"
  show ?thesis
  proof (cases "needs_regen ?ex q")
    case True
    have "needs_regen ?ex2 q"
    proof (cases "?ex2 (repo_id q)")
      case None
      then show ?thesis by (simp add: needs_regen_def)
    next
      case (Some f)
      from existing_Some[OF Some] have f: "f_id f = repo_id q" "f \<in> set (forks ?doc)" by auto
      from output_entry_origin[OF f(2)] have "isFallbackArticle (summary f)"
      proof (elim disjE exE conjE bexE)
        fix q' e'
        assume a: "?ex (repo_id q') = Some e'" "\<not> isFallbackArticle (summary e')" "f = preserve w q' e'"
        from existing_Some[OF a(1)] have "f_id e' = repo_id q'" by simp
        with a(3) f(1) have "repo_id q' = repo_id q" by (simp add: preserve_keeps)
        from needs_regen_id[OF this, of ?ex] True a(1,2) show ?thesis by (simp add: needs_regen_def)
      next
        fix q'
        assume "(\<not> truthy tok \<or> unreachable w) \<longrightarrow> summary f = Some (generateFallbackSummary q')"
        with fb show ?thesis by (simp add: fallback_is_fallback)
      qed
      with Some show ?thesis by (simp add: needs_regen_def)
    qed
    with True show ?thesis by simp
  next
    case False
    then obtain e where e: "?ex (repo_id q) = Some e" "\<not> isFallbackArticle (summary e)"
      by (auto simp: needs_regen_def split: option.splits)
    from preserved_in_output[OF q e] have "preserve w q e \<in> set (forks ?doc)" .
    from existing_stored_dom[OF this] existing_Some[OF e(1)]
    obtain f where f: "?ex2 (repo_id q) = Some f" by (auto simp: preserve_keeps)
    from existing_Some[OF f] have "f_id f = repo_id q" "f \<in> set (forks ?doc)" by auto
    from kept_article_unchanged[OF q e this(2,1)] have "summary f = summary e" .
    with f e(2) have "\<not> needs_regen ?ex2 q" by (simp add: needs_regen_def)
    with False show ?thesis by simp
  qed
qed

lemma second_queue_same:
  assumes "\<not> truthy tok \<or> unreachable w"
  shows "needsGeneration_of cfg (w\<lparr>forks_json := Stored (build_output cfg tok w repos)\<rparr>) repos
           = needsGeneration_of cfg w repos"
  unfolding needsGeneration_of_eq
  by (rule filter_cong) (simp_all add: requeue_same[OF assms])

section \<open>Two runs in a row\<close>

lemma main_ok:
  "fetchRepos (github w) = Some (Inr repos) \<Longrightarrow>
     main cfg tok w =
       Some \<lparr>exit_code = 0, stderr = [], disk = Stored (build_output cfg tok w repos),
             writes = [build_output cfg tok w repos],
             sent = requests (gen (run_loops cfg tok w repos)),
             trace = [LoadFile, ListRepos]
                       @ map Complete (requests (gen (run_loops cfg tok w repos)))
                       @ [WriteFile (build_output cfg tok w repos), ExitProcess 0]\<rparr>"
  by (simp add: main_cases)

lemma pending_main:
  "fetchRepos (github w) = Some (Inr repos) \<Longrightarrow>
     reported_pending (main cfg tok w) =
       Some (length (needsGeneration_of cfg w repos) - length (batchToProcess_of cfg w repos))"
  by (simp add: main_ok reported_pending_def build_output_pending)

lemma second_run_ok:
  "fetchRepos (github w) = Some (Inr repos) \<Longrightarrow>
     second_run cfg tok w = main cfg tok (w\<lparr>forks_json := Stored (build_output cfg tok w repos)\<rparr>)"
  by (simp add: second_run_def main_ok)

lemma second_batch_same:
  assumes "\<not> truthy tok \<or> unreachable w"
  shows "batchToProcess_of cfg (w\<lparr>forks_json := Stored (build_output cfg tok w repos)\<rparr>) repos
           = batchToProcess_of cfg w repos"
  by (simp add: batchToProcess_of_def second_queue_same[OF assms])

lemma pending_second_run:
  assumes "fetchRepos (github w) = Some (Inr repos)" and "\<not> truthy tok \<or> unreachable w"
  shows "reported_pending (second_run cfg tok w) =
       Some (length (needsGeneration_of cfg w repos) - length (batchToProcess_of cfg w repos))"
proof -
  let ?w2 = "w\<lparr>forks_json := Stored (build_output cfg tok w repos)\<rparr>"
  have "fetchRepos (github ?w2) = Some (Inr repos)" using assms(1) by simp
  from pending_main[OF this, of cfg tok] show ?thesis
    by (simp add: second_run_ok[OF assms(1)] second_queue_same[OF assms(2)]
        second_batch_same[OF assms(2)])
qed

text \<open>
  Claim C1, amended.  Let the list of repositories be fixed, let the completion endpoint
  be unreachable, and let the batch cap \<open>K\<close> be smaller than the number \<open>N\<close> of
  repositories needing regeneration.  The first run processes exactly \<open>K\<close> repositories,
  fills them with fallback articles and reports \<open>pending = N - K\<close>.  A second run on the
  file the first one wrote finds the same queue, since a fallback article fails the
  quality check and the deferred repositories have no entry; it processes the same \<open>K\<close>
  repositories and again reports \<open>pending = N - K\<close>, which is not 0.
\<close>

theorem C1_two_runs_offline:
  assumes "fetchRepos (github w) = Some (Inr repos)"
    and "unreachable w"
    and "batchSize cfg < length (needsGeneration_of cfg w repos)"
  shows "length (batchToProcess_of cfg w repos) = batchSize cfg \<and>
     reported_pending (main cfg tok w)
       = Some (length (needsGeneration_of cfg w repos) - batchSize cfg) \<and>
     acc_forks (run_loops cfg tok w repos)
       = preserved_of cfg w repos @ fallback_entries w 0 (batchToProcess_of cfg w repos) \<and>
     second_run cfg tok w = main cfg tok (w\<lparr>forks_json := Stored (build_output cfg tok w repos)\<rparr>) \<and>
     needsGeneration_of cfg (w\<lparr>forks_json := Stored (build_output cfg tok w repos)\<rparr>) repos
       = needsGeneration_of cfg w repos \<and>
     batchToProcess_of cfg (w\<lparr>forks_json := Stored (build_output cfg tok w repos)\<rparr>) repos
       = batchToProcess_of cfg w repos \<and>
     reported_pending (second_run cfg tok w)
       = Some (length (needsGeneration_of cfg w repos) - batchSize cfg) \<and>
     0 < length (needsGeneration_of cfg w repos) - batchSize cfg"
proof -
  have fb: "\<not> truthy tok \<or> unreachable w" using assms(2) by simp
  have len: "length (batchToProcess_of cfg w repos) = batchSize cfg"
    using assms(3) by (simp add: batchToProcess_of_def)
  show ?thesis
    using len pending_main[OF assms(1), of cfg tok] run_loops_fallback[OF fb, of cfg repos]
      second_run_ok[OF assms(1), of cfg tok] second_queue_same[OF fb, of cfg repos]
      second_batch_same[OF fb, of cfg repos] pending_second_run[OF assms(1) fb, of cfg]
      assms(3)
    by simp
qed

lemma sample_selected: "select_repos (map sample_repo ns) = map (tag_repo \<circ> sample_repo) ns"
proof -
  have keep: "filter (\<lambda>r. \<not> includes_str (name r) ''.github.io'' \<and> \<not> archived r)
          (map tag_repo (map sample_repo ns)) = map tag_repo (map sample_repo ns)"
    by (rule filter_True) (auto simp: tag_repo_def sample_repo_def)
  have "sort_key (\<lambda>r. - updated_at r) (map (tag_repo \<circ> sample_repo) ns) = map (tag_repo \<circ> sample_repo) ns"
    by (rule sort_key_id_if_sorted)
       (simp add: comp_def tag_repo_def sample_repo_def map_replicate_const)
  with keep show ?thesis by (simp add: select_repos_def)
qed

lemma offline_unreachable: "unreachable (offline_world srv)"
  by (simp add: unreachable_def offline_world_def)

lemma offline_fetch:
  "fetchRepos (github (offline_world srv)) = Some (Inr (select_repos srv))"
  by (simp add: offline_world_def fetchRepos_paged)

lemma absent_queue:
  "forks_json w = Absent \<Longrightarrow> needsGeneration_of cfg w repos = take (reposToShow cfg) repos"
  by (simp add: needsGeneration_of_eq loadExistingArticles_def needs_regen_def)

lemma sample_queue:
  "length (needsGeneration_of CONFIG (offline_world (map sample_repo [0..<51]))
      (select_repos (map sample_repo [0..<51]))) = 51"
  by (simp add: absent_queue offline_world_def sample_selected CONFIG_def)

text \<open>
  Claim C1, as stated, fails: with the configured cap of 50, 51 repositories, no file and
  an unreachable endpoint, the second run reports one pending repository, not none.
\<close>

theorem C1_counterexample:
  "reported_pending (second_run CONFIG (Some ''t'') (offline_world (map sample_repo [0..<51])))
     = Some 1"
proof -
  have fb: "\<not> truthy (Some ''t'') \<or> unreachable (offline_world (map sample_repo [0..<51]))"
    by (simp add: offline_unreachable)
  have "length (batchToProcess_of CONFIG (offline_world (map sample_repo [0..<51]))
      (select_repos (map sample_repo [0..<51]))) = 50"
    by (simp add: batchToProcess_of_def sample_queue) (simp add: CONFIG_def)
  with pending_second_run[OF offline_fetch fb, of CONFIG] sample_queue show ?thesis by simp
qed

theorem C1_two_runs_offline_witness:
  "fetchRepos (github (offline_world (map sample_repo [0..<51])))
     = Some (Inr (select_repos (map sample_repo [0..<51]))) \<and>
   unreachable (offline_world (map sample_repo [0..<51])) \<and>
   batchSize CONFIG < length (needsGeneration_of CONFIG (offline_world (map sample_repo [0..<51]))
      (select_repos (map sample_repo [0..<51]))) \<and>
   length (batchToProcess_of CONFIG (offline_world (map sample_repo [0..<51]))
      (select_repos (map sample_repo [0..<51]))) = batchSize CONFIG \<and>
   reported_pending (main CONFIG (Some ''t'') (offline_world (map sample_repo [0..<51])))
     = Some (length (needsGeneration_of CONFIG (offline_world (map sample_repo [0..<51]))
         (select_repos (map sample_repo [0..<51]))) - batchSize CONFIG) \<and>
   reported_pending (second_run CONFIG (Some ''t'') (offline_world (map sample_repo [0..<51])))
     = Some (length (needsGeneration_of CONFIG (offline_world (map sample_repo [0..<51]))
         (select_repos (map sample_repo [0..<51]))) - batchSize CONFIG)"
proof -
  have k: "batchSize CONFIG < length (needsGeneration_of CONFIG (offline_world (map sample_repo [0..<51]))
      (select_repos (map sample_repo [0..<51])))"
    unfolding sample_queue by (simp add: CONFIG_def)
  from C1_two_runs_offline[OF offline_fetch offline_unreachable k, of "Some ''t''"] offline_fetch offline_unreachable k
  show ?thesis by blast
qed

section \<open>Stored articles that pass the check\<close>

lemma preserve_shape:
  "preserve w r e =
     e\<lparr>f_description := js_or (description r) (f_description e),
       f_language := language r,
       stars := stargazers_count r,
       f_forks := forks_count r,
       f_topics := (case topics (fetchRepoDetails w r) of None \<Rightarrow> f_topics e | Some t \<Rightarrow> t),
       f_parent := (case parent (fetchRepoDetails w r) of None \<Rightarrow> f_parent e | Some p \<Rightarrow> Some p),
       f_type := rtype r,
       updatedAt := formatDate (updated_at r)\<rparr>"
  by (simp add: preserve_def Let_def)

text \<open>
  Claim C5.  Let a run list its repositories successfully, and let a selected repository
  have a stored entry whose article passes the quality check.  Then the run ends with
  status 0 and the document it writes contains that entry with the same article; only
  the description, language, star and fork counts, topics, parent, type and update date
  of the entry are refreshed, and every entry of the document with this repository's
  identifier carries the stored article.  This holds whatever the completion endpoint
  does, in particular when it cannot be reached.
\<close>

theorem C5_accepted_articles_kept:
  assumes "fetchRepos (github w) = Some (Inr repos)"
    and "r \<in> set (take (reposToShow cfg) repos)"
    and "loadExistingArticles (forks_json w) (repo_id r) = Some e"
    and "\<not> isFallbackArticle (summary e)"
  shows "main cfg tok w =
       Some \<lparr>exit_code = 0, stderr = [], disk = Stored (build_output cfg tok w repos),
             writes = [build_output cfg tok w repos],
             sent = requests (gen (run_loops cfg tok w repos)),
             trace = [LoadFile, ListRepos]
                       @ map Complete (requests (gen (run_loops cfg tok w repos)))
                       @ [WriteFile (build_output cfg tok w repos), ExitProcess 0]\<rparr> \<and>
     preserve w r e \<in> set (forks (build_output cfg tok w repos)) \<and>
     f_id (preserve w r e) = repo_id r \<and>
     summary (preserve w r e) = summary e \<and>
     preserve w r e =
       e\<lparr>f_description := js_or (description r) (f_description e),
         f_language := language r,
         stars := stargazers_count r,
         f_forks := forks_count r,
         f_topics := (case topics (fetchRepoDetails w r) of None \<Rightarrow> f_topics e | Some t \<Rightarrow> t),
         f_parent := (case parent (fetchRepoDetails w r) of None \<Rightarrow> f_parent e | Some p \<Rightarrow> Some p),
         f_type := rtype r,
         updatedAt := formatDate (updated_at r)\<rparr> \<and>
     (\<forall>f \<in> set (forks (build_output cfg tok w repos)).
        f_id f = repo_id r \<longrightarrow> summary f = summary e)"
proof -
  have id: "f_id (preserve w r e) = repo_id r"
    using existing_Some[OF assms(3)] by (simp add: preserve_keeps)
  have all: "\<forall>f \<in> set (forks (build_output cfg tok w repos)).
        f_id f = repo_id r \<longrightarrow> summary f = summary e"
    using kept_article_unchanged[OF assms(2,3,4)] by blast
  show ?thesis
    using main_ok[OF assms(1), of cfg tok] preserved_in_output[OF assms(2,3,4), of tok]
      id preserve_keeps(2)[of w r e] preserve_shape[of w r e] all
    by blast
qed

lemma stored_fetch:
  "fetchRepos (github stored_world) = Some (Inr [tag_repo (sample_repo 7)])"
  using sample_selected[of "[7]"]
  by (simp add: stored_world_def offline_world_def fetchRepos_paged)

lemma stored_existing:
  "loadExistingArticles (forks_json stored_world) (repo_id (tag_repo (sample_repo 7))) = Some good_article"
  by (simp add: stored_world_def loadExistingArticles_def good_article_def tag_repo_def sample_repo_def)

lemma good_article_ok: "\<not> isFallbackArticle (summary good_article)"
  using z400_acceptable by (simp add: good_article_def)

theorem C5_accepted_articles_kept_witness:
  "fetchRepos (github stored_world) = Some (Inr [tag_repo (sample_repo 7)]) \<and>
   tag_repo (sample_repo 7) \<in> set (take (reposToShow CONFIG) [tag_repo (sample_repo 7)]) \<and>
   loadExistingArticles (forks_json stored_world) (repo_id (tag_repo (sample_repo 7)))
     = Some good_article \<and>
   \<not> isFallbackArticle (summary good_article) \<and>
   unreachable stored_world \<and>
   preserve stored_world (tag_repo (sample_repo 7)) good_article
     \<in> set (forks (build_output CONFIG (Some ''t'') stored_world [tag_repo (sample_repo 7)])) \<and>
   f_id (preserve stored_world (tag_repo (sample_repo 7)) good_article)
     = repo_id (tag_repo (sample_repo 7)) \<and>
   summary (preserve stored_world (tag_repo (sample_repo 7)) good_article) = summary good_article"
proof -
  have m: "tag_repo (sample_repo 7) \<in> set (take (reposToShow CONFIG) [tag_repo (sample_repo 7)])"
    by (simp add: CONFIG_def)
  have u: "unreachable stored_world"
    by (simp add: unreachable_def stored_world_def offline_world_def)
  from C5_accepted_articles_kept[OF stored_fetch m stored_existing good_article_ok, of "Some ''t''"]
    stored_fetch m stored_existing good_article_ok u
  show ?thesis by blast
qed

section \<open>Exit status and the single write\<close>

lemma main_none: "(main cfg tok w = None) = (fetchRepos (github w) = None)"
  unfolding main_cases by (simp split: option.splits sum.splits)

lemma main_failed:
  "fetchRepos (github w) = Some (Inl e) \<Longrightarrow>
     main cfg tok w =
       Some \<lparr>exit_code = 1, stderr = [e], disk = forks_json w, writes = [], sent = [],
             trace = [LoadFile, ListRepos, PrintError e, ExitProcess 1]\<rparr>"
  by (simp add: main_cases)

lemma not_write_complete: "filter is_write (map Complete ms) = []"
  by (induction ms) simp_all

lemma main_shape:
  assumes "main cfg tok w = Some out"
  shows "length (writes out) = length (filter is_write (trace out)) \<and>
     ((exit_code out = 0 \<and> stderr out = [] \<and>
       (\<exists>doc before. writes out = [doc] \<and> disk out = Stored doc \<and>
          trace out = before @ [WriteFile doc, ExitProcess 0] \<and> filter is_write before = []))
      \<or> (exit_code out = 1 \<and> writes out = [] \<and> disk out = forks_json w \<and>
          filter is_write (trace out) = [] \<and>
          (\<exists>e before. stderr out = [e] \<and> trace out = before @ [PrintError e, ExitProcess 1])))"
proof (cases "fetchRepos (github w)")
  case None
  with assms main_none[of cfg tok w] show ?thesis by simp
next
  case (Some res)
  show ?thesis
  proof (cases res)
    case (Inl e)
    with Some main_failed[of w e cfg tok] assms
    have out: "out = \<lparr>exit_code = 1, stderr = [e], disk = forks_json w, writes = [], sent = [],
             trace = [LoadFile, ListRepos, PrintError e, ExitProcess 1]\<rparr>" by simp
    have "trace out = [LoadFile, ListRepos] @ [PrintError e, ExitProcess 1]"
      by (simp add: out)
    then show ?thesis by (auto simp: out)
  next
    case (Inr repos)
    let ?doc = "build_output cfg tok w repos"
    let ?reqs = "requests (gen (run_loops cfg tok w repos))"
    from Inr Some main_cases[of cfg tok w] assms
    have out: "out = \<lparr>exit_code = 0, stderr = [], disk = Stored ?doc, writes = [?doc],
                 sent = ?reqs,
                 trace = [LoadFile, ListRepos] @ map Complete ?reqs @ [WriteFile ?doc, ExitProcess 0]\<rparr>"
      by simp
    have t: "trace out = ([LoadFile, ListRepos] @ map Complete ?reqs) @ [WriteFile ?doc, ExitProcess 0]"
      by (simp add: out)
    have b: "filter is_write ([LoadFile, ListRepos] @ map Complete ?reqs) = []"
      by (simp add: not_write_complete)
    have "length (writes out) = length (filter is_write (trace out))"
      by (simp add: out not_write_complete)
    moreover have "exit_code out = 0" "stderr out = []" "writes out = [?doc]" "disk out = Stored ?doc"
      by (simp_all add: out)
    ultimately show ?thesis using t b by blast
  qed
qed

text \<open>
  Claim C9.  A run ends exactly when the listing of the repositories ends, and it does for
  every server that pages a finite list.  When the listing succeeds the run writes the
  output document once, as its last effect before the process ends with status 0: every
  completion request comes before the write and the file then holds that document.  When
  the listing raises an error the run writes nothing, leaves the file as it was, prints
  the error and ends with status 1.  So in every run that ends the number of writes is 0
  or 1, it is 1 exactly for status 0, and a write is followed by the end of the process
  only.  The error of the listing is the one uncaught error of the model: the write
  itself is taken to succeed.
\<close>

theorem C9_single_write_and_exit_status:
  "(main cfg tok w = None) = (fetchRepos (github w) = None) \<and>
   (\<forall>e. fetchRepos (github w) = Some (Inl e) \<longrightarrow>
      main cfg tok w =
        Some \<lparr>exit_code = 1, stderr = [e], disk = forks_json w, writes = [], sent = [],
              trace = [LoadFile, ListRepos, PrintError e, ExitProcess 1]\<rparr>) \<and>
   (\<forall>repos. fetchRepos (github w) = Some (Inr repos) \<longrightarrow>
      main cfg tok w =
        Some \<lparr>exit_code = 0, stderr = [], disk = Stored (build_output cfg tok w repos),
              writes = [build_output cfg tok w repos],
              sent = requests (gen (run_loops cfg tok w repos)),
              trace = [LoadFile, ListRepos]
                        @ map Complete (requests (gen (run_loops cfg tok w repos)))
                        @ [WriteFile (build_output cfg tok w repos), ExitProcess 0]\<rparr>) \<and>
   (\<forall>srv. github w = paged_api srv \<longrightarrow>
      (\<exists>out. main cfg tok w = Some out \<and> exit_code out = 0 \<and>
         writes out = [build_output cfg tok w (select_repos srv)])) \<and>
   (\<forall>out. main cfg tok w = Some out \<longrightarrow>
      length (writes out) = length (filter is_write (trace out)) \<and>
      ((exit_code out = 0 \<and> stderr out = [] \<and>
        (\<exists>doc before. writes out = [doc] \<and> disk out = Stored doc \<and>
           trace out = before @ [WriteFile doc, ExitProcess 0] \<and> filter is_write before = []))
       \<or> (exit_code out = 1 \<and> writes out = [] \<and> disk out = forks_json w \<and>
           filter is_write (trace out) = [] \<and>
           (\<exists>e before. stderr out = [e] \<and> trace out = before @ [PrintError e, ExitProcess 1]))))"
proof (intro conjI allI impI)
  show "(main cfg tok w = None) = (fetchRepos (github w) = None)" by (rule main_none)
next
  fix e assume "fetchRepos (github w) = Some (Inl e)"
  then show "main cfg tok w =
        Some \<lparr>exit_code = 1, stderr = [e], disk = forks_json w, writes = [], sent = [],
              trace = [LoadFile, ListRepos, PrintError e, ExitProcess 1]\<rparr>"
    by (rule main_failed)
next
  fix repos assume "fetchRepos (github w) = Some (Inr repos)"
  then show "main cfg tok w =
        Some \<lparr>exit_code = 0, stderr = [], disk = Stored (build_output cfg tok w repos),
              writes = [build_output cfg tok w repos],
              sent = requests (gen (run_loops cfg tok w repos)),
              trace = [LoadFile, ListRepos]
                        @ map Complete (requests (gen (run_loops cfg tok w repos)))
                        @ [WriteFile (build_output cfg tok w repos), ExitProcess 0]\<rparr>"
    by (rule main_ok)
next
  fix srv assume "github w = paged_api srv"
  then have "fetchRepos (github w) = Some (Inr (select_repos srv))" by (simp add: fetchRepos_paged)
  from main_ok[OF this, of cfg tok]
  show "\<exists>out. main cfg tok w = Some out \<and> exit_code out = 0 \<and>
         writes out = [build_output cfg tok w (select_repos srv)]" by simp
next
  fix out assume m: "main cfg tok w = Some out"
  from main_shape[OF m]
  show "length (writes out) = length (filter is_write (trace out))"
    and "(exit_code out = 0 \<and> stderr out = [] \<and>
        (\<exists>doc before. writes out = [doc] \<and> disk out = Stored doc \<and>
           trace out = before @ [WriteFile doc, ExitProcess 0] \<and> filter is_write before = []))
       \<or> (exit_code out = 1 \<and> writes out = [] \<and> disk out = forks_json w \<and>
           filter is_write (trace out) = [] \<and>
           (\<exists>e before. stderr out = [e] \<and> trace out = before @ [PrintError e, ExitProcess 1]))"
    by blast+
qed

lemma sample_offline_queue:
  "batchToProcess_of CONFIG (offline_world [sample_repo 0]) [tag_repo (sample_repo 0)]
     = [tag_repo (sample_repo 0)]"
  by (simp add: batchToProcess_of_def absent_queue offline_world_def CONFIG_def)

lemma sample_offline_requests:
  "requests (gen (run_loops CONFIG (Some ''t'') (offline_world [sample_repo 0])
      [tag_repo (sample_repo 0)])) = [''gpt-4o'']"
proof -
  let ?w = "offline_world [sample_repo 0]"
  have t: "truthy (Some ''t'')" by (simp add: truthy_def)
  have ne: "''gpt-4o'' \<noteq> []" by simp
  have thr: "completion ?w (length (requests (initial_gen_state\<lparr>currentModelIndex := 1\<rparr>))) ''gpt-4o''
      = Throws"
    by (simp add: offline_world_def)
  have g: "generateBlogArticle CONFIG (Some ''t'') (completion ?w) d initial_gen_state
        = (None, log_request ''gpt-4o'' (initial_gen_state\<lparr>currentModelIndex := 1\<rparr>))" for d
    by (rule gba_throws[where net = "completion ?w", OF t sample_next_model ne thr])
  show ?thesis
    unfolding run_loops_def sample_offline_queue
    by (simp add: Let_def try_generate_def initial_loop_state_def g truthy_def)
       (simp add: log_request_def initial_gen_state_def)
qed

lemma sample_offline_fetch:
  "fetchRepos (github (offline_world [sample_repo 0])) = Some (Inr [tag_repo (sample_repo 0)])"
  using sample_selected[of "[0]"] by (simp add: offline_fetch)

lemma broken_fetch: "fetchRepos (github broken_api_world) = Some (Inl (GitHubApiError 500))"
  by (simp add: fetchRepos_def broken_api_world_def fetchPages.simps http_ok_def)

theorem C9_single_write_and_exit_status_witness:
  "fetchRepos (github broken_api_world) = Some (Inl (GitHubApiError 500)) \<and>
   main CONFIG (Some ''t'') broken_api_world = Some api_error_outcome \<and>
   exit_code api_error_outcome = 1 \<and> writes api_error_outcome = [] \<and>
   disk api_error_outcome = forks_json broken_api_world \<and>
   fetchRepos (github (offline_world [sample_repo 0])) = Some (Inr [tag_repo (sample_repo 0)]) \<and>
   main CONFIG (Some ''t'') (offline_world [sample_repo 0]) =
     Some \<lparr>exit_code = 0, stderr = [],
           disk = Stored (build_output CONFIG (Some ''t'') (offline_world [sample_repo 0])
                    [tag_repo (sample_repo 0)]),
           writes = [build_output CONFIG (Some ''t'') (offline_world [sample_repo 0])
                    [tag_repo (sample_repo 0)]],
           sent = [''gpt-4o''],
           trace = [LoadFile, ListRepos, Complete ''gpt-4o'',
                    WriteFile (build_output CONFIG (Some ''t'') (offline_world [sample_repo 0])
                      [tag_repo (sample_repo 0)]),
                    ExitProcess 0]\<rparr>"
proof -
  note bad = C9_single_write_and_exit_status[of CONFIG "Some ''t''" broken_api_world]
  note good = C9_single_write_and_exit_status[of CONFIG "Some ''t''" "offline_world [sample_repo 0]"]
  from bad have "\<forall>e. fetchRepos (github broken_api_world) = Some (Inl e) \<longrightarrow>
      main CONFIG (Some ''t'') broken_api_world =
        Some \<lparr>exit_code = 1, stderr = [e], disk = forks_json broken_api_world, writes = [],
              sent = [], trace = [LoadFile, ListRepos, PrintError e, ExitProcess 1]\<rparr>"
    by blast
  from this[rule_format, OF broken_fetch]
  have b: "main CONFIG (Some ''t'') broken_api_world = Some api_error_outcome"
    by (simp add: api_error_outcome_def broken_api_world_def offline_world_def)
  from good have "\<forall>repos. fetchRepos (github (offline_world [sample_repo 0])) = Some (Inr repos) \<longrightarrow>
      main CONFIG (Some ''t'') (offline_world [sample_repo 0]) =
        Some \<lparr>exit_code = 0, stderr = [],
              disk = Stored (build_output CONFIG (Some ''t'') (offline_world [sample_repo 0]) repos),
              writes = [build_output CONFIG (Some ''t'') (offline_world [sample_repo 0]) repos],
              sent = requests (gen (run_loops CONFIG (Some ''t'') (offline_world [sample_repo 0]) repos)),
              trace = [LoadFile, ListRepos]
                        @ map Complete (requests (gen (run_loops CONFIG (Some ''t'')
                            (offline_world [sample_repo 0]) repos)))
                        @ [WriteFile (build_output CONFIG (Some ''t'') (offline_world [sample_repo 0])
                            repos), ExitProcess 0]\<rparr>"
    by blast
  from this[rule_format, OF sample_offline_fetch]
  have g: "main CONFIG (Some ''t'') (offline_world [sample_repo 0]) =
     Some \<lparr>exit_code = 0, stderr = [],
           disk = Stored (build_output CONFIG (Some ''t'') (offline_world [sample_repo 0])
                    [tag_repo (sample_repo 0)]),
           writes = [build_output CONFIG (Some ''t'') (offline_world [sample_repo 0])
                    [tag_repo (sample_repo 0)]],
           sent = [''gpt-4o''],
           trace = [LoadFile, ListRepos, Complete ''gpt-4o'',
                    WriteFile (build_output CONFIG (Some ''t'') (offline_world [sample_repo 0])
                      [tag_repo (sample_repo 0)]),
                    ExitProcess 0]\<rparr>"
    by (simp add: sample_offline_requests)
  have a: "exit_code api_error_outcome = 1" "writes api_error_outcome = []"
    "disk api_error_outcome = forks_json broken_api_world"
    by (simp_all add: api_error_outcome_def broken_api_world_def offline_world_def)
  from broken_fetch b a sample_offline_fetch g show ?thesis by blast
qed

section \<open>Runs without a token\<close>

lemma forks_no_token:
  "\<not> truthy tok \<Longrightarrow>
     generateBlogSummary_forks tok resp rnd r = (generateFallbackSummary_forks rnd r, 0)"
  by (simp add: generateBlogSummary_forks_def)

lemma templates_lengths:
  "length (templates_v1 lang nm) = 3" "length (templates_forks lang nm) = 3"
  by (simp_all add: templates_v1_def templates_forks_def)

lemma fallback_exact:
  "generateFallbackSummary r =
     (if length (js_or (description r) []) > 100
      then js_or (description r) [] @ fallback_long_tail (js_or (language r) ''various technologies'')
      else replace_char CHR ''_'' CHR '' '' (replace_char CHR ''-'' CHR '' '' (name r))
             @ fallback_short_tail (js_or (language r) ''various technologies''))"
  by (simp add: generateFallbackSummary_def Let_def)

lemma v1_exact:
  "generateFallbackSummary_v1 rnd r =
     (if length (js_or (description r) []) > 50 then js_or (description r) []
      else templates_v1 (js_or (language r) ''various technologies'')
             (replace_char CHR ''_'' CHR '' '' (replace_char CHR ''-'' CHR '' '' (name r)))
           ! (rnd mod 3))"
  by (simp add: generateFallbackSummary_v1_def Let_def templates_lengths)

lemma forks_exact:
  "generateFallbackSummary_forks rnd r =
     (if length (js_or (description r) []) > 50 then js_or (description r) []
      else templates_forks (js_or (language r) ''various technologies'')
             (replace_char CHR ''_'' CHR '' '' (replace_char CHR ''-'' CHR '' '' (name r)))
           ! (rnd mod 3))"
  by (simp add: generateFallbackSummary_forks_def Let_def templates_lengths)

lemma main_no_token:
  assumes "\<not> truthy tok" and "fetchRepos (github w) = Some (Inr repos)"
  shows "main cfg tok w =
     Some \<lparr>exit_code = 0, stderr = [], disk = Stored (build_output cfg tok w repos),
           writes = [build_output cfg tok w repos], sent = [],
           trace = [LoadFile, ListRepos, WriteFile (build_output cfg tok w repos), ExitProcess 0]\<rparr>"
  by (simp add: main_ok[OF assms(2)] run_loops_no_requests[OF assms(1)])

lemma no_token_no_completion:
  assumes "\<not> truthy tok" and m: "main cfg tok w = Some out"
  shows "sent out = [] \<and> filter is_completion (trace out) = []"
proof (cases "fetchRepos (github w)")
  case None
  with m main_none[of cfg tok w] show ?thesis by simp
next
  case (Some res)
  show ?thesis
  proof (cases res)
    case (Inl e)
    with Some main_failed[of w e cfg tok] m show ?thesis by auto
  next
    case (Inr listed)
    with Some main_no_token[OF assms(1), of w listed cfg] m show ?thesis by auto
  qed
qed

text \<open>
  Claim C4, as stated, fails for the earlier scripts: without a token, for a repository
  whose description has 56 characters, the summary is that description, which is none of
  the three templates.
\<close>

theorem C4_counterexample:
  "\<not> truthy None \<and>
   fst (generateBlogSummary_v1 None Throws 0 described_repo)
     = ''A small command line tool that prints rows of demo data.'' \<and>
   fst (generateBlogSummary_v1 None Throws 0 described_repo)
     \<notin> set (templates_v1 (js_or (language described_repo) ''various technologies'')
              (replace_char CHR ''_'' CHR '' ''
                 (replace_char CHR ''-'' CHR '' '' (name described_repo)))) \<and>
   fst (generateBlogSummary_forks None Throws 0 described_repo)
     \<notin> set (templates_forks (js_or (language described_repo) ''various technologies'')
              (replace_char CHR ''_'' CHR '' ''
                 (replace_char CHR ''-'' CHR '' '' (name described_repo))))"
  by (simp add: truthy_def generateBlogSummary_v1_def generateFallbackSummary_v1_def
      generateBlogSummary_forks_def generateFallbackSummary_forks_def described_repo_def
      sample_repo_def templates_v1_def templates_forks_def js_or_def replace_char_def Let_def)

text \<open>
  Claim C4, amended.  Without a token (the variable absent or empty) no completion request
  is sent.  In the incremental generator \<open>generateBlogArticle\<close> returns, with the state
  unchanged, the article of the fallback generator, which is the first of its two fixed
  templates when the description is longer than 100 characters and the second otherwise;
  every entry that a run adds for its batch carries that article of its repository, and a
  run whose listing succeeds ends with status 0 after the listing and the write alone.  In
  the earlier scripts the summary is the description itself when it is longer than 50
  characters, and otherwise the one of their three fixed templates that the random index
  selects.
\<close>

theorem C4_no_token_fallback_only:
  assumes "\<not> truthy tok"
  shows
   "generateBlogArticle cfg tok net r st = (Some (generateFallbackSummary r), st) \<and>
    generateFallbackSummary r =
     (if length (js_or (description r) []) > 100
      then js_or (description r) [] @ fallback_long_tail (js_or (language r) ''various technologies'')
      else replace_char CHR ''_'' CHR '' '' (replace_char CHR ''-'' CHR '' '' (name r))
             @ fallback_short_tail (js_or (language r) ''various technologies'')) \<and>
    acc_forks (run_loops cfg tok w repos)
      = preserved_of cfg w repos @ fallback_entries w 0 (batchToProcess_of cfg w repos) \<and>
    forks (build_output cfg tok w repos)
      = sort_key (\<lambda>f. - updatedAt f)
          (preserved_of cfg w repos @ fallback_entries w 0 (batchToProcess_of cfg w repos)) \<and>
    map summary (fallback_entries w 0 (batchToProcess_of cfg w repos))
      = map (\<lambda>r. Some (generateFallbackSummary r)) (batchToProcess_of cfg w repos) \<and>
    requests (gen (run_loops cfg tok w repos)) = [] \<and>
    (\<forall>listed. fetchRepos (github w) = Some (Inr listed) \<longrightarrow>
       main cfg tok w =
         Some \<lparr>exit_code = 0, stderr = [], disk = Stored (build_output cfg tok w listed),
               writes = [build_output cfg tok w listed], sent = [],
               trace = [LoadFile, ListRepos, WriteFile (build_output cfg tok w listed),
                        ExitProcess 0]\<rparr>) \<and>
    (\<forall>out. main cfg tok w = Some out \<longrightarrow>
       sent out = [] \<and> filter is_completion (trace out) = []) \<and>
    generateBlogSummary_v1 tok resp rnd r =
      (if length (js_or (description r) []) > 50 then js_or (description r) []
       else templates_v1 (js_or (language r) ''various technologies'')
              (replace_char CHR ''_'' CHR '' '' (replace_char CHR ''-'' CHR '' '' (name r)))
            ! (rnd mod 3), 0) \<and>
    generateBlogSummary_forks tok resp rnd r =
      (if length (js_or (description r) []) > 50 then js_or (description r) []
       else templates_forks (js_or (language r) ''various technologies'')
              (replace_char CHR ''_'' CHR '' '' (replace_char CHR ''-'' CHR '' '' (name r)))
            ! (rnd mod 3), 0) \<and>
    rnd mod 3 < length (templates_v1 lang nm) \<and> rnd mod 3 < length (templates_forks lang nm)"
proof -
  have v1: "generateBlogSummary_v1 tok resp rnd r =
      (if length (js_or (description r) []) > 50 then js_or (description r) []
       else templates_v1 (js_or (language r) ''various technologies'')
              (replace_char CHR ''_'' CHR '' '' (replace_char CHR ''-'' CHR '' '' (name r)))
            ! (rnd mod 3), 0)"
    using v1_no_token[OF assms, of resp rnd r] by (simp add: v1_exact)
  have fk: "generateBlogSummary_forks tok resp rnd r =
      (if length (js_or (description r) []) > 50 then js_or (description r) []
       else templates_forks (js_or (language r) ''various technologies'')
              (replace_char CHR ''_'' CHR '' '' (replace_char CHR ''-'' CHR '' '' (name r)))
            ! (rnd mod 3), 0)"
    using forks_no_token[OF assms, of resp rnd r] by (simp add: forks_exact)
  have l: "rnd mod 3 < length (templates_v1 lang nm)" "rnd mod 3 < length (templates_forks lang nm)"
    by (simp_all add: templates_lengths)
  have fb: "\<not> truthy tok \<or> unreachable w" using assms by simp
  have out: "forks (build_output cfg tok w repos)
      = sort_key (\<lambda>f. - updatedAt f)
          (preserved_of cfg w repos @ fallback_entries w 0 (batchToProcess_of cfg w repos))"
    by (simp add: build_output_forks run_loops_fallback[OF fb])
  show ?thesis
    using gba_no_token[OF assms, of cfg net r st] fallback_exact[of r]
      run_loops_fallback[OF fb, of cfg repos] out
      fallback_entries_summary[of w 0 "batchToProcess_of cfg w repos"]
      run_loops_no_requests[OF assms, of cfg w repos]
      main_no_token[OF assms, of w _ cfg] no_token_no_completion[OF assms, of cfg w] v1 fk l
    by blast
qed

theorem C4_no_token_fallback_only_witness:
  "\<not> truthy None \<and>
   generateBlogArticle CONFIG None rate_limited_net (sample_repo 0) initial_gen_state
     = (Some (generateFallbackSummary (sample_repo 0)), initial_gen_state) \<and>
   requests (gen (run_loops CONFIG None (offline_world [sample_repo 0]) [tag_repo (sample_repo 0)])) = [] \<and>
   acc_forks (run_loops CONFIG None (offline_world [sample_repo 0]) [tag_repo (sample_repo 0)])
     = preserved_of CONFIG (offline_world [sample_repo 0]) [tag_repo (sample_repo 0)]
       @ fallback_entries (offline_world [sample_repo 0]) 0
           (batchToProcess_of CONFIG (offline_world [sample_repo 0]) [tag_repo (sample_repo 0)]) \<and>
   fetchRepos (github (offline_world [sample_repo 0])) = Some (Inr [tag_repo (sample_repo 0)]) \<and>
   main CONFIG None (offline_world [sample_repo 0]) =
     Some \<lparr>exit_code = 0, stderr = [],
           disk = Stored (build_output CONFIG None (offline_world [sample_repo 0])
                    [tag_repo (sample_repo 0)]),
           writes = [build_output CONFIG None (offline_world [sample_repo 0])
                    [tag_repo (sample_repo 0)]],
           sent = [],
           trace = [LoadFile, ListRepos,
                    WriteFile (build_output CONFIG None (offline_world [sample_repo 0])
                      [tag_repo (sample_repo 0)]),
                    ExitProcess 0]\<rparr> \<and>
   generateBlogSummary_v1 None Throws 0 described_repo
     = (''A small command line tool that prints rows of demo data.'', 0) \<and>
   generateBlogSummary_forks None Throws 2 (sample_repo 0)
     = (templates_forks ''Go'' ''demo repo'' ! 2, 0)"
proof -
  have h: "\<not> truthy None" by (simp add: truthy_def)
  note c4 = C4_no_token_fallback_only[OF h, of CONFIG rate_limited_net "sample_repo 0"
      initial_gen_state "offline_world [sample_repo 0]" "[tag_repo (sample_repo 0)]"]
  from c4 have "\<forall>listed. fetchRepos (github (offline_world [sample_repo 0])) = Some (Inr listed) \<longrightarrow>
       main CONFIG None (offline_world [sample_repo 0]) =
         Some \<lparr>exit_code = 0, stderr = [],
               disk = Stored (build_output CONFIG None (offline_world [sample_repo 0]) listed),
               writes = [build_output CONFIG None (offline_world [sample_repo 0]) listed], sent = [],
               trace = [LoadFile, ListRepos,
                        WriteFile (build_output CONFIG None (offline_world [sample_repo 0]) listed),
                        ExitProcess 0]\<rparr>"
    by blast
  note m = this[rule_format, OF sample_offline_fetch]
  from C4_no_token_fallback_only[OF h, of _ _ described_repo _ _ _ Throws 0]
  have "generateBlogSummary_v1 None Throws 0 described_repo =
      (if length (js_or (description described_repo) []) > 50
       then js_or (description described_repo) []
       else templates_v1 (js_or (language described_repo) ''various technologies'')
              (replace_char CHR ''_'' CHR '' ''
                 (replace_char CHR ''-'' CHR '' '' (name described_repo)))
            ! (0 mod 3), 0)"
    by blast
  then have d: "generateBlogSummary_v1 None Throws 0 described_repo
     = (''A small command line tool that prints rows of demo data.'', 0)"
    by (simp add: described_repo_def sample_repo_def js_or_def)
  from C4_no_token_fallback_only[OF h, of _ _ "sample_repo 0" _ _ _ Throws 2]
  have "generateBlogSummary_forks None Throws 2 (sample_repo 0) =
      (if length (js_or (description (sample_repo 0)) []) > 50
       then js_or (description (sample_repo 0)) []
       else templates_forks (js_or (language (sample_repo 0)) ''various technologies'')
              (replace_char CHR ''_'' CHR '' ''
                 (replace_char CHR ''-'' CHR '' '' (name (sample_repo 0))))
            ! (2 mod 3), 0)"
    by blast
  then have f: "generateBlogSummary_forks None Throws 2 (sample_repo 0)
     = (templates_forks ''Go'' ''demo repo'' ! 2, 0)"
    by (simp add: sample_repo_def js_or_def replace_char_def)
  from c4 h m d f sample_offline_fetch show ?thesis by blast
qed

end
